theory Spec2Isabelle
  imports Main "HOL-Library.Char_ord" "HOL-Library.List_Lexorder" "HOL-Library.Multiset"
begin

section \<open>The alias registry of createAliasMap\<close>

text \<open>
  The development follows the latest version of \<^verbatim>\<open>createAliasMap.ts\<close> (the one whose
  \<^verbatim>\<open>FileMapType\<close> is \<^verbatim>\<open>Record<string, string[]>\<close> and whose \<^verbatim>\<open>createViteAliasMap\<close>
  collects the duplicates before logging them).

  JavaScript strings are modelled as \<^typ>\<open>string\<close>, one \<^typ>\<open>char\<close> per character, which
  covers the characters with a code below 256. Node's \<^verbatim>\<open>path\<close> module is modelled in its
  POSIX flavour (\<^verbatim>\<open>path.sep\<close> is a slash). \<^verbatim>\<open>DIR_NAME\<close>, the directory of the module,
  is the parameter \<open>dir\<close> of every function that reads it; it is an absolute path, and the
  working directory of the process is taken to be the same directory. The default locale
  of the host is the parameter \<open>loc\<close> of every function whose result depends on it.
\<close>

subsection \<open>Errors and strings\<close>

datatype js_error = TypeError | SyntaxError | RangeError

text \<open>
  What a call yields when it yields no value: the exception that it throws, or the remark
  that the call leaves what is modelled here.
\<close>

datatype failure = Thrown js_error | NotModelled

text \<open>
  \<^verbatim>\<open>toLowerCase\<close> on the characters below 256: the capital letters of ASCII and the
  capital letters of Latin-1 (U+00C0 to U+00DE, the multiplication sign U+00D7 apart)
  go to the small letter 32 places further, every other character stays as it is.
\<close>

definition capitals :: string where
  "capitals =
     ''ABCDEFGHIJKLMNOPQRSTUVWXYZ'' @
     [CHR 0xC0, CHR 0xC1, CHR 0xC2, CHR 0xC3, CHR 0xC4, CHR 0xC5, CHR 0xC6, CHR 0xC7,
      CHR 0xC8, CHR 0xC9, CHR 0xCA, CHR 0xCB, CHR 0xCC, CHR 0xCD, CHR 0xCE, CHR 0xCF,
      CHR 0xD0, CHR 0xD1, CHR 0xD2, CHR 0xD3, CHR 0xD4, CHR 0xD5, CHR 0xD6,
      CHR 0xD8, CHR 0xD9, CHR 0xDA, CHR 0xDB, CHR 0xDC, CHR 0xDD, CHR 0xDE]"

definition smalls :: string where
  "smalls =
     ''abcdefghijklmnopqrstuvwxyz'' @
     [CHR 0xE0, CHR 0xE1, CHR 0xE2, CHR 0xE3, CHR 0xE4, CHR 0xE5, CHR 0xE6, CHR 0xE7,
      CHR 0xE8, CHR 0xE9, CHR 0xEA, CHR 0xEB, CHR 0xEC, CHR 0xED, CHR 0xEE, CHR 0xEF,
      CHR 0xF0, CHR 0xF1, CHR 0xF2, CHR 0xF3, CHR 0xF4, CHR 0xF5, CHR 0xF6,
      CHR 0xF8, CHR 0xF9, CHR 0xFA, CHR 0xFB, CHR 0xFC, CHR 0xFD, CHR 0xFE]"

definition toLowerCase_char :: "char \<Rightarrow> char" where
  "toLowerCase_char c = (case map_of (zip capitals smalls) c of None \<Rightarrow> c | Some l \<Rightarrow> l)"

definition toLowerCase :: "string \<Rightarrow> string" where
  "toLowerCase s = map toLowerCase_char s"

text \<open>
  \<^verbatim>\<open>toLocaleLowerCase()\<close> lower-cases by the rules of the default locale of the host.
  Unicode has lower-casing rules of their own for three languages: in Turkish and Azeri
  the capital \<^verbatim>\<open>I\<close> goes to the dotless i (U+0131), and in Lithuanian U+00CC and U+00CD go
  to \<^verbatim>\<open>i\<close>, a combining dot above (U+0307) and the combining accent (U+0300, U+0301). The
  other rules of these languages need a character above 255 in the string. In every other
  locale \<^verbatim>\<open>toLocaleLowerCase\<close> is \<^verbatim>\<open>toLowerCase\<close>. As the results leave the characters
  below 256, a lower-cased name is the list of its UTF-16 code units, which is what the
  comparison of two strings in JavaScript looks at, unit by unit.
\<close>

datatype host_locale = Turkic | Lithuanian | OtherLocale

definition code_units :: "string \<Rightarrow> nat list" where
  "code_units s = map of_char s"

definition toLocaleLowerCase_char :: "host_locale \<Rightarrow> char \<Rightarrow> nat list" where
  "toLocaleLowerCase_char loc c =
     (if loc = Turkic \<and> c = CHR ''I'' then [0x131]
      else if loc = Lithuanian \<and> c = CHR 0xCC then [0x69, 0x307, 0x300]
      else if loc = Lithuanian \<and> c = CHR 0xCD then [0x69, 0x307, 0x301]
      else [of_char (toLowerCase_char c)])"

definition toLocaleLowerCase :: "host_locale \<Rightarrow> string \<Rightarrow> nat list" where
  "toLocaleLowerCase loc s = concat (map (toLocaleLowerCase_char loc) s)"

definition startsWith :: "string \<Rightarrow> string \<Rightarrow> bool" where
  "startsWith s q = (take (length q) s = q)"

fun join :: "string \<Rightarrow> string list \<Rightarrow> string" where
  "join s [] = []"
| "join s [x] = x"
| "join s (x # y # ys) = x @ s @ join s (y # ys)"

text \<open>\<^verbatim>\<open>String(n)\<close> for a natural number: its decimal digits.\<close>

definition digit_char :: "nat \<Rightarrow> char" where
  "digit_char d = ''0123456789'' ! d"

fun digits_upto :: "nat \<Rightarrow> nat \<Rightarrow> string" where
  "digits_upto 0 n = []"
| "digits_upto (Suc f) n =
     (if n < 10 then [digit_char n] else digits_upto f (n div 10) @ [digit_char (n mod 10)])"

definition nat_to_string :: "nat \<Rightarrow> string" where
  "nat_to_string n = digits_upto (Suc n) n"

subsection \<open>JavaScript objects with string keys\<close>

text \<open>
  An object is the list of its own enumerable properties in the order in which
  \<^verbatim>\<open>Object.keys\<close> and \<^verbatim>\<open>Object.entries\<close> enumerate them: the keys that are array indices
  (canonical decimal numerals below \<open>2^32 - 1\<close>) first, in ascending numeric order, then
  every other key in the order of its creation. The objects of the program are created by
  \<^verbatim>\<open>{}\<close> or by \<^verbatim>\<open>JSON.parse\<close>, so what they do not own they inherit from
  \<^verbatim>\<open>Object.prototype\<close>.
\<close>

type_synonym 'v obj = "(string \<times> 'v) list"

definition isDigit :: "char \<Rightarrow> bool" where
  "isDigit c = (c \<in> set ''0123456789'')"

definition digit_value :: "char \<Rightarrow> nat" where
  "digit_value c = (of_char c :: nat) - 48"

definition decimal_value :: "string \<Rightarrow> nat" where
  "decimal_value s = foldl (\<lambda>n c. 10 * n + digit_value c) 0 s"

definition isArrayIndex :: "string \<Rightarrow> bool" where
  "isArrayIndex k =
     (k \<noteq> [] \<and> list_all isDigit k \<and> (length k = 1 \<or> hd k \<noteq> CHR ''0'')
      \<and> decimal_value k < 4294967295)"

text \<open>The own property of a name, if the object has one.\<close>

definition obj_get :: "'v obj \<Rightarrow> string \<Rightarrow> 'v option" where
  "obj_get ob k = map_of ob k"

text \<open>
  The names that \<^verbatim>\<open>Object.prototype\<close> has. Eleven of them are bound to functions, and
  \<^verbatim>\<open>__proto__\<close> is an accessor whose getter gives the prototype of the object, which is
  \<^verbatim>\<open>Object.prototype\<close> itself here. None of these values is \<^verbatim>\<open>undefined\<close> or
  \<^verbatim>\<open>null\<close>, none can be iterated, and none has a \<^verbatim>\<open>filter\<close> or a \<^verbatim>\<open>map\<close>.
\<close>

definition prototype_names :: "string list" where
  "prototype_names =
     [''constructor'', ''__defineGetter__'', ''__defineSetter__'', ''hasOwnProperty'',
      ''__lookupGetter__'', ''__lookupSetter__'', ''isPrototypeOf'',
      ''propertyIsEnumerable'', ''toString'', ''valueOf'', ''__proto__'',
      ''toLocaleString'']"

text \<open>
  The expression \<^verbatim>\<open>ob[k]\<close>: the own property, else what \<^verbatim>\<open>Object.prototype\<close> has
  under this name, else \<^verbatim>\<open>undefined\<close>.
\<close>

datatype 'v property = Own 'v | Inherited | Undefined

definition obj_read :: "'v obj \<Rightarrow> string \<Rightarrow> 'v property" where
  "obj_read ob k =
     (case obj_get ob k of
        Some v \<Rightarrow> Own v
      | None \<Rightarrow> if k \<in> set prototype_names then Inherited else Undefined)"

fun obj_replace :: "string \<Rightarrow> 'v \<Rightarrow> 'v obj \<Rightarrow> 'v obj" where
  "obj_replace k v [] = []"
| "obj_replace k v ((k', v') # r) =
     (if k' = k then (k, v) # r else (k', v') # obj_replace k v r)"

fun obj_insert_index :: "string \<Rightarrow> 'v \<Rightarrow> 'v obj \<Rightarrow> 'v obj" where
  "obj_insert_index k v [] = [(k, v)]"
| "obj_insert_index k v ((k', v') # r) =
     (if isArrayIndex k' \<and> decimal_value k' < decimal_value k
      then (k', v') # obj_insert_index k v r
      else (k, v) # (k', v') # r)"

text \<open>
  Giving the object the own property \<open>k\<close> with the value \<open>v\<close>. This is how \<^verbatim>\<open>JSON.parse\<close>
  fills the objects that it builds.
\<close>

definition obj_set :: "string \<Rightarrow> 'v \<Rightarrow> 'v obj \<Rightarrow> 'v obj" where
  "obj_set k v ob =
     (if obj_get ob k \<noteq> None then obj_replace k v ob
      else if isArrayIndex k then obj_insert_index k v ob
      else ob @ [(k, v)])"

text \<open>
  The assignment \<^verbatim>\<open>ob[k] = v\<close>, for a value \<open>v\<close> that is an array. It gives the object the
  own property \<open>k\<close>, for every name but one: \<^verbatim>\<open>__proto__\<close>, when the object does not own
  it, reaches the setter of \<^verbatim>\<open>Object.prototype\<close>, which makes \<open>v\<close> the prototype of the
  object and creates no property. An object whose prototype was replaced in this way
  inherits other names than the ones above; the program hands such an object to
  \<^verbatim>\<open>Object.entries\<close> only, which looks at own properties.
\<close>

definition obj_assign :: "string \<Rightarrow> 'v \<Rightarrow> 'v obj \<Rightarrow> 'v obj" where
  "obj_assign k v ob =
     (if obj_get ob k = None \<and> k = ''__proto__'' then ob else obj_set k v ob)"

text \<open>The statement \<^verbatim>\<open>delete ob[k]\<close>.\<close>

definition obj_delete :: "string \<Rightarrow> 'v obj \<Rightarrow> 'v obj" where
  "obj_delete k ob = filter (\<lambda>e. fst e \<noteq> k) ob"

subsection \<open>The POSIX path module\<close>

definition path_sep :: string where
  "path_sep = ''/''"

definition split_sep :: "string \<Rightarrow> string list" where
  "split_sep s =
     foldr (\<lambda>c acc. if c = CHR ''/'' then [] # acc else (c # hd acc) # tl acc) s [[]]"

text \<open>
  \<^verbatim>\<open>normalizeString\<close> without \<^verbatim>\<open>allowAboveRoot\<close>: empty segments and \<^verbatim>\<open>.\<close> are dropped,
  \<^verbatim>\<open>..\<close> removes the segment before it, and is dropped at the root.
\<close>

definition normalizeSegments :: "string list \<Rightarrow> string list" where
  "normalizeSegments segs =
     rev (foldl (\<lambda>st s. if s = [] \<or> s = ''.'' then st
                         else if s = ''..'' then tl st
                         else s # st) [] segs)"

definition isAbsolute :: "string \<Rightarrow> bool" where
  "isAbsolute p = (case p of [] \<Rightarrow> False | c # _ \<Rightarrow> c = CHR ''/'')"

definition resolvedSegments :: "string \<Rightarrow> string \<Rightarrow> string list" where
  "resolvedSegments dir p =
     normalizeSegments (if isAbsolute p then split_sep p else split_sep dir @ split_sep p)"

text \<open>\<^verbatim>\<open>path.resolve(DIR_NAME, p)\<close>.\<close>

definition path_resolve :: "string \<Rightarrow> string \<Rightarrow> string" where
  "path_resolve dir p = CHR ''/'' # join ''/'' (resolvedSegments dir p)"

fun dropCommon :: "string list \<Rightarrow> string list \<Rightarrow> string list \<times> string list" where
  "dropCommon (x # xs) (y # ys) = (if x = y then dropCommon xs ys else (x # xs, y # ys))"
| "dropCommon xs ys = (xs, ys)"

text \<open>
  \<^verbatim>\<open>path.relative(DIR_NAME, p)\<close>: both paths are resolved, the common leading segments are
  dropped, and every remaining segment of the first is answered by \<^verbatim>\<open>..\<close>.
\<close>

definition path_relative :: "string \<Rightarrow> string \<Rightarrow> string" where
  "path_relative dir p =
     (case dropCommon (normalizeSegments (split_sep dir)) (resolvedSegments dir p) of
        (f, t) \<Rightarrow> join ''/'' (replicate (length f) ''..'' @ t))"

text \<open>
  \<^verbatim>\<open>path.parse(p).name\<close>: the last segment of the path, trailing slashes apart, without
  its extension. The extension starts at the last dot of that segment, unless the dot is
  its first character or the segment is \<^verbatim>\<open>..\<close>.
\<close>

definition path_base :: "string \<Rightarrow> string" where
  "path_base p =
     rev (takeWhile (\<lambda>c. c \<noteq> CHR ''/'') (dropWhile (\<lambda>c. c = CHR ''/'') (rev p)))"

definition path_parse_name :: "string \<Rightarrow> string" where
  "path_parse_name p =
     (let base = path_base p;
          ext = takeWhile (\<lambda>c. c \<noteq> CHR ''.'') (rev base)
      in if CHR ''.'' \<notin> set base \<or> base = ''..'' \<or> Suc (length ext) = length base
         then base
         else take (length base - Suc (length ext)) base)"

subsection \<open>The registry and its serialisation\<close>

record CreateAliasInputType =
  sourcePath :: string
  extensions :: "string list"
  prefix :: "string option"

type_synonym FileMapType = "string list obj"

datatype evt = Add | Unlink

text \<open>
  \<^verbatim>\<open>Array.prototype.sort\<close> with a comparator. The language fixes the result when the
  comparator is a consistent comparison function for the elements of the array (it is
  reflexive and symmetric where it answers 0, and transitive in each of its three
  answers): the elements in ascending order, equal ones in the order that they had.
  Insertion from the right gives this result.
\<close>

definition consistent :: "('a \<Rightarrow> 'a \<Rightarrow> int) \<Rightarrow> 'a list \<Rightarrow> bool" where
  "consistent cmp xs =
     list_all (\<lambda>a. cmp a a = 0 \<and>
       list_all (\<lambda>b. (cmp a b = 0 \<longrightarrow> cmp b a = 0) \<and>
         list_all (\<lambda>c. (cmp a b = 0 \<and> cmp b c = 0 \<longrightarrow> cmp a c = 0) \<and>
                        (cmp a b < 0 \<and> cmp b c < 0 \<longrightarrow> cmp a c < 0) \<and>
                        (cmp a b > 0 \<and> cmp b c > 0 \<longrightarrow> cmp a c > 0)) xs) xs) xs"

fun insort_cmp :: "('a \<Rightarrow> 'a \<Rightarrow> int) \<Rightarrow> 'a \<Rightarrow> 'a list \<Rightarrow> 'a list" where
  "insort_cmp cmp x [] = [x]"
| "insort_cmp cmp x (y # ys) =
     (if cmp x y \<le> 0 then x # y # ys else y # insort_cmp cmp x ys)"

text \<open>
  For any other comparator the language leaves the order to the implementation. Node runs
  on V8, whose sort (\<^verbatim>\<open>ArrayTimSortImpl\<close> in \<^verbatim>\<open>third_party/v8/builtins/array-sort.tq\<close>)
  treats an array of fewer than 64 elements as one run: \<^verbatim>\<open>CountAndMakeRun\<close> takes the
  longest prefix that does not descend, or that descends strictly and is then reversed,
  comparing each element with the one before it, and \<^verbatim>\<open>BinaryInsertionSort\<close> inserts the
  elements after the prefix one by one, each at the place that a binary search finds.
  Longer arrays are sorted by merging several runs, which is not modelled.
\<close>

fun continueRun :: "('a \<Rightarrow> 'a \<Rightarrow> int) \<Rightarrow> bool \<Rightarrow> 'a \<Rightarrow> 'a list \<Rightarrow> nat" where
  "continueRun cmp isDescending previousElement [] = 0"
| "continueRun cmp isDescending previousElement (currentElement # r) =
     (if (if isDescending then cmp currentElement previousElement \<ge> 0
          else cmp currentElement previousElement < 0)
      then 0
      else Suc (continueRun cmp isDescending currentElement r))"

fun countAndMakeRun :: "('a \<Rightarrow> 'a \<Rightarrow> int) \<Rightarrow> 'a list \<Rightarrow> 'a list \<times> 'a list" where
  "countAndMakeRun cmp (elementHigh # elementLow # r) =
     (let isDescending = (cmp elementLow elementHigh < 0);
          runLength = 2 + continueRun cmp isDescending elementLow r;
          run = take runLength (elementHigh # elementLow # r)
      in (if isDescending then rev run else run, drop runLength (elementHigh # elementLow # r)))"
| "countAndMakeRun cmp xs = (xs, [])"

function binarySearch :: "('a \<Rightarrow> 'a \<Rightarrow> int) \<Rightarrow> 'a \<Rightarrow> 'a list \<Rightarrow> nat \<Rightarrow> nat \<Rightarrow> nat" where
  "binarySearch cmp pivot workArray left right =
     (if left < right
      then (if cmp pivot (workArray ! (left + (right - left) div 2)) < 0
            then binarySearch cmp pivot workArray left (left + (right - left) div 2)
            else binarySearch cmp pivot workArray (left + (right - left) div 2 + 1) right)
      else left)"
  by pat_completeness auto

termination
  by (relation "measure (\<lambda>(cmp, pivot, workArray, left, right). right - left)") auto

declare binarySearch.simps [simp del]

definition binaryInsert :: "('a \<Rightarrow> 'a \<Rightarrow> int) \<Rightarrow> 'a list \<Rightarrow> 'a \<Rightarrow> 'a list" where
  "binaryInsert cmp workArray pivot =
     (let left = binarySearch cmp pivot workArray 0 (length workArray)
      in take left workArray @ pivot # drop left workArray)"

definition timSortShort :: "('a \<Rightarrow> 'a \<Rightarrow> int) \<Rightarrow> 'a list \<Rightarrow> 'a list" where
  "timSortShort cmp xs =
     (case countAndMakeRun cmp xs of (run, rest) \<Rightarrow> foldl (binaryInsert cmp) run rest)"

definition js_sort :: "('a \<Rightarrow> 'a \<Rightarrow> int) \<Rightarrow> 'a list \<Rightarrow> 'a list option" where
  "js_sort cmp xs =
     (if consistent cmp xs then Some (foldr (insort_cmp cmp) xs [])
      else if length xs < 64 then Some (timSortShort cmp xs)
      else None)"

text \<open>
  The comparator of \<^verbatim>\<open>writeTsConfigPathsJSON\<close>: the first name is lower-cased with
  \<^verbatim>\<open>toLocaleLowerCase\<close>, the second with \<^verbatim>\<open>toLowerCase\<close>.
\<close>

definition compareNames :: "host_locale \<Rightarrow> string \<Rightarrow> string \<Rightarrow> int" where
  "compareNames loc a b =
     (let name1 = toLocaleLowerCase loc a; name2 = code_units (toLowerCase b)
      in if name1 > name2 then 1 else if name1 < name2 then - 1 else 0)"

definition importNames :: "host_locale \<Rightarrow> FileMapType \<Rightarrow> string list option" where
  "importNames loc fileMap = js_sort (compareNames loc) (map fst fileMap)"

definition quotedRelative :: "string \<Rightarrow> string \<Rightarrow> string" where
  \<open>quotedRelative dir pathStr = ''".'' @ path_sep @ path_relative dir pathStr @ ''"''\<close>

text \<open>
  One line of the \<^verbatim>\<open>paths\<close> section. The names come from \<^verbatim>\<open>Object.keys\<close>, so each is an
  own property; for any other name \<^verbatim>\<open>fileMap[name]\<close> is \<^verbatim>\<open>undefined\<close> or an inherited
  value, and either has no first element to hand to \<^verbatim>\<open>path.relative\<close> or no \<^verbatim>\<open>map\<close>
  to call. For an empty array \<^verbatim>\<open>values[0]\<close> is \<^verbatim>\<open>undefined\<close>, which
  \<^verbatim>\<open>path.relative\<close> refuses with a TypeError.
\<close>

definition pathLine :: "string \<Rightarrow> FileMapType \<Rightarrow> string \<Rightarrow> string \<Rightarrow> js_error + string" where
  \<open>pathLine dir fileMap comma name =
     (case obj_read fileMap name of
        Own values \<Rightarrow>
          if length values > 1
          then Inr (''      "'' @ name @ ''": ['' @ join '', '' (map (quotedRelative dir) values)
                    @ '']'' @ comma)
          else (case values of
                  [] \<Rightarrow> Inl TypeError
                | v # _ \<Rightarrow> Inr (''      "'' @ name @ ''": ['' @ quotedRelative dir v
                               @ '']'' @ comma))
      | _ \<Rightarrow> Inl TypeError)\<close>

fun pathLines :: "string \<Rightarrow> FileMapType \<Rightarrow> string list \<Rightarrow> js_error + string list" where
  "pathLines dir fileMap [] = Inr []"
| "pathLines dir fileMap (name # names) =
     (case pathLine dir fileMap (if names = [] then [] else '','') name of
        Inl e \<Rightarrow> Inl e
      | Inr l \<Rightarrow> (case pathLines dir fileMap names of
                    Inl e \<Rightarrow> Inl e
                  | Inr ls \<Rightarrow> Inr (l # ls)))"

text \<open>
  \<^verbatim>\<open>writeTsConfigPathsJSON\<close>: the text handed to \<^verbatim>\<open>writeFile\<close>, or the exception thrown
  while it is built. The call leaves the model when the order of the keys is left to the
  merging of runs.
\<close>

definition writeTsConfigPathsJSON :: "host_locale \<Rightarrow> string \<Rightarrow> FileMapType \<Rightarrow> failure + string" where
  \<open>writeTsConfigPathsJSON loc dir fileMap =
     (case importNames loc fileMap of
        None \<Rightarrow> Inl NotModelled
      | Some names \<Rightarrow>
          (case pathLines dir fileMap names of
             Inl e \<Rightarrow> Inl (Thrown e)
           | Inr paths \<Rightarrow>
               Inr (join [CHR 0x0A]
                      ([''{'', ''  "compilerOptions": {'', ''    "paths": {''] @ paths
                       @ [''    }'', ''  }'', ''}'', '''']))))\<close>

subsection \<open>The mutation protocol\<close>

definition getImportPrefix :: "string \<Rightarrow> CreateAliasInputType list \<Rightarrow> string option" where
  "getImportPrefix absoluteFilePath arr =
     (case find (\<lambda>item. startsWith absoluteFilePath (sourcePath item)) arr of
        None \<Rightarrow> None
      | Some item \<Rightarrow> prefix item)"

text \<open>The \<^verbatim>\<open>mapKey\<close> of \<^verbatim>\<open>processWatcherEvent\<close>; an empty prefix is falsy.\<close>

definition mapKey :: "string \<Rightarrow> CreateAliasInputType list \<Rightarrow> string" where
  "mapKey absoluteFilePath aliasArray =
     (let componentPathPrefix = getImportPrefix absoluteFilePath aliasArray;
          fileName = path_parse_name absoluteFilePath
      in case componentPathPrefix of
           None \<Rightarrow> fileName
         | Some p \<Rightarrow> if p \<noteq> [] then p @ path_sep @ fileName else fileName)"

text \<open>
  \<^verbatim>\<open>processWatcherEvent\<close> mutates \<^verbatim>\<open>fileMap\<close> in place and returns the promise of the
  write. The model returns the file map after the call, and either the text written or the
  exception that rejected the promise. On \<^verbatim>\<open>add\<close> of a key that the map does not own
  but inherits, \<^verbatim>\<open>fileMap[mapKey]\<close> is neither \<^verbatim>\<open>undefined\<close> nor \<^verbatim>\<open>null\<close>, so
  \<^verbatim>\<open>?? []\<close> does not apply and spreading the inherited value throws a TypeError. On
  \<^verbatim>\<open>unlink\<close> of a key that the map does not own, \<^verbatim>\<open>fileMap[mapKey]\<close> is
  \<^verbatim>\<open>undefined\<close> or an inherited value without a \<^verbatim>\<open>filter\<close>, and the call of
  \<^verbatim>\<open>filter\<close> throws a TypeError. In both cases nothing was assigned yet.
\<close>

definition processWatcherEvent ::
  "host_locale \<Rightarrow> string \<Rightarrow> evt \<Rightarrow> string \<Rightarrow> FileMapType \<Rightarrow> CreateAliasInputType list
   \<Rightarrow> FileMapType \<times> (failure + string)" where
  "processWatcherEvent loc dir ev absoluteFilePath fileMap aliasArray =
     (let k = mapKey absoluteFilePath aliasArray in
      case ev of
        Add \<Rightarrow>
          (case obj_read fileMap k of
             Inherited \<Rightarrow> (fileMap, Inl (Thrown TypeError))
           | Undefined \<Rightarrow>
               (let fm = obj_assign k ([] @ [absoluteFilePath]) fileMap
                in (fm, writeTsConfigPathsJSON loc dir fm))
           | Own ps \<Rightarrow>
               (let fm = obj_assign k (ps @ [absoluteFilePath]) fileMap
                in (fm, writeTsConfigPathsJSON loc dir fm)))
      | Unlink \<Rightarrow>
          (case obj_read fileMap k of
             Own ps \<Rightarrow>
               (let kept = filter (\<lambda>val. val \<noteq> absoluteFilePath) ps;
                    fm1 = obj_assign k kept fileMap;
                    fm2 = (if length kept = 0 then obj_delete k fm1 else fm1)
                in (fm2, writeTsConfigPathsJSON loc dir fm2))
           | _ \<Rightarrow> (fileMap, Inl (Thrown TypeError))))"

text \<open>
  The files of a source specification. \<^verbatim>\<open>createAliasMap\<close> has the watcher look at the
  pattern \<^verbatim>\<open>${sourcePath}/**/(${globExtensions})\<close> for each specification, so the events
  that it hands to \<^verbatim>\<open>processWatcherEvent\<close> are about files below the directory
  \<^verbatim>\<open>sourcePath\<close>.
\<close>

definition inRoot :: "CreateAliasInputType \<Rightarrow> string \<Rightarrow> bool" where
  "inRoot item absoluteFilePath = startsWith absoluteFilePath (sourcePath item @ ''/'')"

text \<open>The invariant of the registry: no key is bound to an empty sequence.\<close>

definition nonempty_seqs :: "FileMapType \<Rightarrow> bool" where
  "nonempty_seqs fileMap = list_all (\<lambda>e. snd e \<noteq> []) fileMap"

text \<open>How the line of a key starts in the \<^verbatim>\<open>paths\<close> section of the written file.\<close>

definition lineStart :: "string \<Rightarrow> string" where
  \<open>lineStart name = ''      "'' @ name @ ''": [''\<close>

subsection \<open>The alias projection and its diagnostic\<close>

text \<open>
  \<^verbatim>\<open>CreateViteAliasMapReturnType\<close>. The replacement is \<^verbatim>\<open>replacements[0]\<close>, which is
  \<^verbatim>\<open>undefined\<close> (\<open>None\<close>) for an empty array.
\<close>

record CreateViteAliasMapReturnType =
  find_alias :: string
  replacement :: "string option"

type_synonym DuplicateModulesType = "(string \<times> string list) list"

text \<open>
  \<^verbatim>\<open>removeAnsiChars\<close> replaces every match of \<^verbatim>\<open>/\u001b\[.*?m/g\<close> by nothing: an escape
  character, a bracket, and the shortest run of characters other than line terminators
  that an \<^verbatim>\<open>m\<close> ends.
\<close>

fun upto_m :: "string \<Rightarrow> string option" where
  "upto_m [] = None"
| "upto_m (c # cs) =
     (if c = CHR ''m'' then Some cs
      else if c = CHR 0x0A \<or> c = CHR 0x0D then None
      else upto_m cs)"

function removeAnsiChars :: "string \<Rightarrow> string" where
  "removeAnsiChars [] = []"
| "removeAnsiChars (c # cs) =
     (if c = CHR 0x1B \<and> cs \<noteq> [] \<and> hd cs = CHR ''[''
      then (case upto_m (tl cs) of
              Some r \<Rightarrow> removeAnsiChars r
            | None \<Rightarrow> c # removeAnsiChars cs)
      else c # removeAnsiChars cs)"
  by pat_completeness auto
termination
proof (relation "measure length")
  have shorter: "length r < length cs" if "upto_m cs = Some r" for cs r
    using that by (induction cs) (auto split: if_splits)
  fix c :: char and cs r :: string
  assume "c = CHR 0x1B \<and> cs \<noteq> [] \<and> hd cs = CHR ''[''" and "upto_m (tl cs) = Some r"
  then have "length r < length (tl cs)" and "cs \<noteq> []"
    using shorter [of "tl cs" r] by blast+
  then show "(r, c # cs) \<in> measure length" by (cases cs) auto
qed simp_all

definition getMaxLengthNoAnsi :: "string list \<Rightarrow> nat" where
  "getMaxLengthNoAnsi textArr =
     foldl (\<lambda>len line. max len (length (removeAnsiChars line))) 0 textArr"

text \<open>
  \<^verbatim>\<open>String.prototype.repeat\<close> throws a RangeError for a negative count.
\<close>

definition repeat :: "string \<Rightarrow> int \<Rightarrow> js_error + string" where
  "repeat s n = (if n < 0 then Inl RangeError else Inr (concat (replicate (nat n) s)))"

text \<open>
  The styles of \<^verbatim>\<open>chalk\<close> are modelled without colour support: each returns its text.
  The arrow of the suffix and the characters of the frame have no \<^typ>\<open>char\<close>; each is
  modelled by one ASCII character, which keeps every length.
\<close>

definition chalk :: "string \<Rightarrow> string" where
  "chalk s = s"

definition duplicateLines :: "string \<Rightarrow> string \<times> string list \<Rightarrow> string list" where
  "duplicateLines dir d =
     (case d of (name, absolutePaths) \<Rightarrow>
        (chalk (nat_to_string (length absolutePaths)) @ '' ''
           @ chalk ''paths are associated with the module'' @ '' '' @ chalk name @ chalk '':'')
        # map (\<lambda>(i, absolutePath).
                 ''  '' @ chalk (path_relative dir absolutePath)
                 @ (if i = 0 then ''(< using)'' else ''''))
              (zip [0 ..< length absolutePaths] absolutePaths)
        @ [''''])"

definition frameText :: "string list \<Rightarrow> string list" where
  "frameText textArr =
     (let maxLength = getMaxLengthNoAnsi textArr;
          border = concat (replicate (maxLength + 2) (chalk ''-''))
      in (chalk ''+'' @ border @ chalk ''+'')
         # map (\<lambda>msg. chalk ''|'' @ '' '' @ msg
                  @ replicate (maxLength - length (removeAnsiChars msg)) CHR '' ''
                  @ '' '' @ chalk ''|'') textArr
         @ [chalk ''+'' @ border @ chalk ''+''])"

text \<open>
  \<^verbatim>\<open>logMultipleModuleWarnings\<close>: the lines given to \<^verbatim>\<open>console.warn\<close>, or the exception.
  The padding of the title is computed from the longest line, and
  \<^verbatim>\<open>' '.repeat(padStart)\<close> is evaluated whether or not there are duplicates.
\<close>

definition logMultipleModuleWarnings ::
  "string \<Rightarrow> DuplicateModulesType \<Rightarrow> js_error + string list" where
  "logMultipleModuleWarnings dir duplicates =
     (let textArr = concat (map (duplicateLines dir) duplicates);
          maxLength = getMaxLengthNoAnsi textArr;
          header = '' *** MULTIPLE MODULES FOUND *** '';
          title = chalk header;
          padStart = (int maxLength - int (length header)) div 2;
          padEnd = - ((int (length header) - int maxLength) div 2)
      in case repeat '' '' padStart of
           Inl e \<Rightarrow> Inl e
         | Inr startPad \<Rightarrow>
             (case repeat '' '' padEnd of
                Inl e \<Rightarrow> Inl e
              | Inr endPad \<Rightarrow>
                  Inr ('''' # frameText ('''' # (startPad @ title @ endPad) # '''' # textArr)
                       @ [''''])))"

text \<open>
  \<^verbatim>\<open>createViteAliasMap\<close>: the alias list and the lines logged, or the exception that the
  logging threw.
\<close>

definition createViteAliasMap ::
  "string \<Rightarrow> FileMapType \<Rightarrow> js_error + CreateViteAliasMapReturnType list \<times> string list" where
  "createViteAliasMap dir fileMap =
     (let duplicates = filter (\<lambda>(find, replacements). length replacements > 1) fileMap;
          aliasMap = map (\<lambda>(find, replacements).
                            \<lparr>find_alias = find,
                             replacement = (case replacements of [] \<Rightarrow> None | r # _ \<Rightarrow> Some r)\<rparr>)
                         fileMap
      in case logMultipleModuleWarnings dir duplicates of
           Inl e \<Rightarrow> Inl e
         | Inr logged \<Rightarrow> Inr (aliasMap, logged))"

subsection \<open>JSON.parse\<close>

text \<open>
  The values of JSON. A number keeps its text, since nothing here computes with it. The
  members of an object are in the order of \<^verbatim>\<open>Object.entries\<close>.
\<close>

datatype json =
  JNull
| JBool bool
| JNumber string
| JString string
| JArray "json list"
| JObject "(string \<times> json) list"

text \<open>
  The parser reads the text one character at a time. Its state is what it expects next
  and the stack of the arrays and objects that are still open; an open object remembers
  the key whose value is being read. A text that is not JSON is a SyntaxError. An escape
  \<^verbatim>\<open>\uXXXX\<close> above \<open>00FF\<close> has no \<^typ>\<open>char\<close> and is answered by \<open>NotModelled\<close>.
\<close>

datatype frame = FArr "json list" | FObj "(string \<times> json) list" string

datatype num_state = NMinus | NZero | NInt | NDot | NFrac | NExp | NExpSign | NExpDigits

datatype str_role = Key | Val

datatype mode =
  MValue
| MArrStart
| MObjStart
| MKey
| MColon
| MAfter
| MEnd json
| MStr str_role string
| MEsc str_role string
| MUni str_role string string
| MNum num_state string
| MLit string json

type_synonym pstate = "mode \<times> frame list"

definition isWs :: "char \<Rightarrow> bool" where
  "isWs c = (c = CHR '' '' \<or> c = CHR 0x09 \<or> c = CHR 0x0A \<or> c = CHR 0x0D)"

definition hex_digits :: "(char \<times> nat) list" where
  "hex_digits =
     zip ''0123456789abcdef'' [0 ..< 16] @ zip ''ABCDEF'' [10 ..< 16]"

definition hex_value :: "string \<Rightarrow> nat" where
  "hex_value s = foldl (\<lambda>n c. 16 * n + (case map_of hex_digits c of None \<Rightarrow> 0 | Some d \<Rightarrow> d)) 0 s"

text \<open>A value is complete: it is the result, or goes into the container on the stack.\<close>

fun complete :: "json \<Rightarrow> frame list \<Rightarrow> pstate" where
  "complete v [] = (MEnd v, [])"
| "complete v (FArr xs # st) = (MAfter, FArr (xs @ [v]) # st)"
| "complete v (FObj ms k # st) = (MAfter, FObj (obj_set k v ms) k # st)"

fun close_array :: "frame list \<Rightarrow> failure + pstate" where
  "close_array (FArr xs # st) = Inr (complete (JArray xs) st)"
| "close_array st = Inl (Thrown SyntaxError)"

fun close_object :: "frame list \<Rightarrow> failure + pstate" where
  "close_object (FObj ms k # st) = Inr (complete (JObject ms) st)"
| "close_object st = Inl (Thrown SyntaxError)"

fun next_member :: "frame list \<Rightarrow> failure + pstate" where
  "next_member (FArr xs # st) = Inr (MValue, FArr xs # st)"
| "next_member (FObj ms k # st) = Inr (MKey, FObj ms k # st)"
| "next_member [] = Inl (Thrown SyntaxError)"

fun set_key :: "string \<Rightarrow> frame list \<Rightarrow> failure + pstate" where
  "set_key k (FObj ms _ # st) = Inr (MColon, FObj ms k # st)"
| "set_key k st = Inl (Thrown SyntaxError)"

text \<open>After a value: a comma, the end of the container, or the end of the text.\<close>

definition step_after :: "pstate \<Rightarrow> char \<Rightarrow> failure + pstate" where
  "step_after s c =
     (case s of (m, st) \<Rightarrow>
        if isWs c then Inr (m, st)
        else if m = MAfter \<and> c = CHR '','' then next_member st
        else if m = MAfter \<and> c = CHR '']'' then close_array st
        else if m = MAfter \<and> c = CHR ''}'' then close_object st
        else Inl (Thrown SyntaxError))"

definition step_value :: "bool \<Rightarrow> frame list \<Rightarrow> char \<Rightarrow> failure + pstate" where
  \<open>step_value first st c =
     (if isWs c then Inr (if first then MArrStart else MValue, st)
      else if c = CHR ''{'' then Inr (MObjStart, FObj [] [] # st)
      else if c = CHR ''['' then Inr (MArrStart, FArr [] # st)
      else if c = CHR 0x22 then Inr (MStr Val [], st)
      else if c = CHR ''-'' then Inr (MNum NMinus [c], st)
      else if c = CHR ''0'' then Inr (MNum NZero [c], st)
      else if isDigit c then Inr (MNum NInt [c], st)
      else if c = CHR ''t'' then Inr (MLit ''rue'' (JBool True), st)
      else if c = CHR ''f'' then Inr (MLit ''alse'' (JBool False), st)
      else if c = CHR ''n'' then Inr (MLit ''ull'' JNull, st)
      else if first \<and> c = CHR '']'' then close_array st
      else Inl (Thrown SyntaxError))\<close>

definition step_string :: "str_role \<Rightarrow> string \<Rightarrow> frame list \<Rightarrow> char \<Rightarrow> failure + pstate" where
  \<open>step_string r acc st c =
     (if c = CHR 0x22 then (case r of Key \<Rightarrow> set_key acc st
                                     | Val \<Rightarrow> Inr (complete (JString acc) st))
      else if c = CHR 0x5C then Inr (MEsc r acc, st)
      else if (of_char c :: nat) < 32 then Inl (Thrown SyntaxError)
      else Inr (MStr r (acc @ [c]), st))\<close>

definition escapes :: "(char \<times> char) list" where
  \<open>escapes =
     [(CHR 0x22, CHR 0x22), (CHR 0x5C, CHR 0x5C), (CHR ''/'', CHR ''/''),
      (CHR ''b'', CHR 0x08), (CHR ''f'', CHR 0x0C), (CHR ''n'', CHR 0x0A),
      (CHR ''r'', CHR 0x0D), (CHR ''t'', CHR 0x09)]\<close>

definition step_escape :: "str_role \<Rightarrow> string \<Rightarrow> frame list \<Rightarrow> char \<Rightarrow> failure + pstate" where
  "step_escape r acc st c =
     (if c = CHR ''u'' then Inr (MUni r acc [], st)
      else (case map_of escapes c of
              None \<Rightarrow> Inl (Thrown SyntaxError)
            | Some e \<Rightarrow> Inr (MStr r (acc @ [e]), st)))"

definition step_unicode ::
  "str_role \<Rightarrow> string \<Rightarrow> string \<Rightarrow> frame list \<Rightarrow> char \<Rightarrow> failure + pstate" where
  "step_unicode r acc ds st c =
     (if map_of hex_digits c = None then Inl (Thrown SyntaxError)
      else if length ds < 3 then Inr (MUni r acc (ds @ [c]), st)
      else if hex_value (ds @ [c]) < 256
        then Inr (MStr r (acc @ [char_of (hex_value (ds @ [c]))]), st)
      else Inl NotModelled)"

text \<open>
  Inside a number. A character that cannot continue a number that is complete ends it,
  and is then read as the character after a value.
\<close>

definition isExp :: "char \<Rightarrow> bool" where
  "isExp c = (c = CHR ''e'' \<or> c = CHR ''E'')"

definition num_complete :: "num_state \<Rightarrow> bool" where
  "num_complete ns = (ns = NZero \<or> ns = NInt \<or> ns = NFrac \<or> ns = NExpDigits)"

definition num_next :: "num_state \<Rightarrow> char \<Rightarrow> num_state option" where
  "num_next ns c =
     (case ns of
        NMinus \<Rightarrow> if c = CHR ''0'' then Some NZero else if isDigit c then Some NInt else None
      | NZero \<Rightarrow> if c = CHR ''.'' then Some NDot else if isExp c then Some NExp else None
      | NInt \<Rightarrow> if isDigit c then Some NInt else if c = CHR ''.'' then Some NDot
                else if isExp c then Some NExp else None
      | NDot \<Rightarrow> if isDigit c then Some NFrac else None
      | NFrac \<Rightarrow> if isDigit c then Some NFrac else if isExp c then Some NExp else None
      | NExp \<Rightarrow> if c = CHR ''+'' \<or> c = CHR ''-'' then Some NExpSign
                else if isDigit c then Some NExpDigits else None
      | NExpSign \<Rightarrow> if isDigit c then Some NExpDigits else None
      | NExpDigits \<Rightarrow> if isDigit c then Some NExpDigits else None)"

definition step_number :: "num_state \<Rightarrow> string \<Rightarrow> frame list \<Rightarrow> char \<Rightarrow> failure + pstate" where
  "step_number ns acc st c =
     (case num_next ns c of
        Some ns' \<Rightarrow> Inr (MNum ns' (acc @ [c]), st)
      | None \<Rightarrow> if num_complete ns then step_after (complete (JNumber acc) st) c
                else Inl (Thrown SyntaxError))"

definition step_literal :: "string \<Rightarrow> json \<Rightarrow> frame list \<Rightarrow> char \<Rightarrow> failure + pstate" where
  "step_literal rest v st c =
     (case rest of
        [] \<Rightarrow> Inl (Thrown SyntaxError)
      | x # xs \<Rightarrow> if c \<noteq> x then Inl (Thrown SyntaxError)
                  else if xs = [] then Inr (complete v st)
                  else Inr (MLit xs v, st))"

fun step :: "pstate \<Rightarrow> char \<Rightarrow> failure + pstate" where
  "step (MValue, st) c = step_value False st c"
| "step (MArrStart, st) c = step_value True st c"
| "step (MObjStart, st) c =
     (if isWs c then Inr (MObjStart, st)
      else if c = CHR 0x22 then Inr (MStr Key [], st)
      else if c = CHR ''}'' then close_object st
      else Inl (Thrown SyntaxError))"
| "step (MKey, st) c =
     (if isWs c then Inr (MKey, st)
      else if c = CHR 0x22 then Inr (MStr Key [], st)
      else Inl (Thrown SyntaxError))"
| "step (MColon, st) c =
     (if isWs c then Inr (MColon, st)
      else if c = CHR '':'' then Inr (MValue, st)
      else Inl (Thrown SyntaxError))"
| "step (MAfter, st) c = step_after (MAfter, st) c"
| "step (MEnd v, st) c = step_after (MEnd v, st) c"
| "step (MStr r acc, st) c = step_string r acc st c"
| "step (MEsc r acc, st) c = step_escape r acc st c"
| "step (MUni r acc ds, st) c = step_unicode r acc ds st c"
| "step (MNum ns acc, st) c = step_number ns acc st c"
| "step (MLit rest v, st) c = step_literal rest v st c"

fun run :: "pstate \<Rightarrow> string \<Rightarrow> failure + pstate" where
  "run s [] = Inr s"
| "run s (c # cs) = (case step s c of Inl e \<Rightarrow> Inl e | Inr s' \<Rightarrow> run s' cs)"

text \<open>At the end of the text the value must be complete.\<close>

fun finish :: "pstate \<Rightarrow> failure + json" where
  "finish (MEnd v, st) = Inr v"
| "finish (MNum ns acc, []) =
     (if num_complete ns then Inr (JNumber acc) else Inl (Thrown SyntaxError))"
| "finish s = Inl (Thrown SyntaxError)"

definition JSON_parse :: "string \<Rightarrow> failure + json" where
  "JSON_parse str = (case run (MValue, []) str of Inl e \<Rightarrow> Inl e | Inr s \<Rightarrow> finish s)"

subsection \<open>Reading the file back\<close>

text \<open>
  A JavaScript value here is a JSON value or \<^verbatim>\<open>undefined\<close> (\<open>None\<close>). Reading a
  property of \<^verbatim>\<open>undefined\<close> or \<^verbatim>\<open>null\<close> throws. The two properties that the program
  reads are \<^verbatim>\<open>compilerOptions\<close> and \<^verbatim>\<open>paths\<close>, which no value inherits: they are
  \<^verbatim>\<open>undefined\<close> on anything but an object that has them. No other name is modelled.
\<close>

definition get_prop :: "json option \<Rightarrow> string \<Rightarrow> failure + json option" where
  "get_prop v name =
     (if name \<noteq> ''compilerOptions'' \<and> name \<noteq> ''paths'' then Inl NotModelled
      else case v of
             None \<Rightarrow> Inl (Thrown TypeError)
           | Some JNull \<Rightarrow> Inl (Thrown TypeError)
           | Some (JObject ms) \<Rightarrow> Inr (obj_get ms name)
           | Some _ \<Rightarrow> Inr None)"

text \<open>\<^verbatim>\<open>Object.entries\<close>.\<close>

definition entries :: "json option \<Rightarrow> failure + (string \<times> json) list" where
  "entries v =
     (case v of
        None \<Rightarrow> Inl (Thrown TypeError)
      | Some JNull \<Rightarrow> Inl (Thrown TypeError)
      | Some (JObject ms) \<Rightarrow> Inr ms
      | Some (JArray xs) \<Rightarrow> Inr (zip (map nat_to_string [0 ..< length xs]) xs)
      | Some (JString s) \<Rightarrow>
          Inr (zip (map nat_to_string [0 ..< length s]) (map (\<lambda>c. JString [c]) s))
      | Some _ \<Rightarrow> Inr [])"

text \<open>
  \<^verbatim>\<open>relativeFilePaths.map(p => path.resolve(DIR_NAME, p))\<close>: only an array has a
  \<^verbatim>\<open>map\<close> to call, and \<^verbatim>\<open>path.resolve\<close> takes strings only.
\<close>

fun resolveAll :: "string \<Rightarrow> json list \<Rightarrow> failure + string list" where
  "resolveAll dir [] = Inr []"
| "resolveAll dir (x # xs) =
     (case x of
        JString relativeFilePath \<Rightarrow>
          (case resolveAll dir xs of
             Inl e \<Rightarrow> Inl e
           | Inr ps \<Rightarrow> Inr (path_resolve dir relativeFilePath # ps))
      | _ \<Rightarrow> Inl (Thrown TypeError))"

definition resolvePaths :: "string \<Rightarrow> json \<Rightarrow> failure + string list" where
  "resolvePaths dir relativeFilePaths =
     (case relativeFilePaths of
        JArray xs \<Rightarrow> resolveAll dir xs
      | _ \<Rightarrow> Inl (Thrown TypeError))"

text \<open>
  The reducer assigns \<^verbatim>\<open>fileMap[mapKey]\<close> on an object that starts as \<^verbatim>\<open>{}\<close>; the
  value is computed before it is assigned.
\<close>

fun reduceEntries ::
  "string \<Rightarrow> FileMapType \<Rightarrow> (string \<times> json) list \<Rightarrow> failure + FileMapType" where
  "reduceEntries dir fileMap [] = Inr fileMap"
| "reduceEntries dir fileMap ((k, relativeFilePaths) # es) =
     (case resolvePaths dir relativeFilePaths of
        Inl e \<Rightarrow> Inl e
      | Inr ps \<Rightarrow> reduceEntries dir (obj_assign k ps fileMap) es)"

definition tsConfigPathsToFileMap :: "string \<Rightarrow> string \<Rightarrow> failure + FileMapType" where
  "tsConfigPathsToFileMap dir str =
     (case JSON_parse str of
        Inl e \<Rightarrow> Inl e
      | Inr json \<Rightarrow>
          (case get_prop (Some json) ''compilerOptions'' of
             Inl e \<Rightarrow> Inl e
           | Inr compilerOptions \<Rightarrow>
               (case get_prop compilerOptions ''paths'' of
                  Inl e \<Rightarrow> Inl e
                | Inr pathsObj \<Rightarrow>
                    (case entries pathsObj of
                       Inl e \<Rightarrow> Inl e
                     | Inr es \<Rightarrow> reduceEntries dir [] es))))"

subsection \<open>Notions for the written file and the round trip\<close>

text \<open>
  The lower-case form that \<^verbatim>\<open>toLowerCase\<close> gives, as code units, and the names on
  which \<^verbatim>\<open>toLocaleLowerCase\<close> gives the same: every name when the locale has no rules of
  its own, the names without a capital \<^verbatim>\<open>I\<close> in Turkish and Azeri, and the names without
  U+00CC and U+00CD in Lithuanian.
\<close>

definition lower_units :: "string \<Rightarrow> nat list" where
  "lower_units s = code_units (toLowerCase s)"

definition same_lower :: "host_locale \<Rightarrow> string list \<Rightarrow> bool" where
  "same_lower loc names = list_all (\<lambda>k. toLocaleLowerCase loc k = lower_units k) names"

text \<open>
  A string that JSON can hold between double quotes as it is: no double quote, no
  backslash, no control character.
\<close>

definition json_safe :: "string \<Rightarrow> bool" where
  "json_safe s = list_all (\<lambda>c. c \<noteq> CHR 0x22 \<and> c \<noteq> CHR 0x5C \<and> 32 \<le> (of_char c :: nat)) s"

text \<open>The lines of a text, each ended by a line feed.\<close>

definition unlines :: "string list \<Rightarrow> string" where
  "unlines ls = concat (map (\<lambda>l. l @ [CHR 0x0A]) ls)"

text \<open>What the file stores for a path: the relative path after \<^verbatim>\<open>./\<close>.\<close>

definition stored :: "string \<Rightarrow> string \<Rightarrow> string" where
  "stored dir v = ''./'' @ path_relative dir v"

text \<open>The JSON array that the line of a key is read as.\<close>

definition memberValue :: "string \<Rightarrow> FileMapType \<Rightarrow> string \<Rightarrow> json" where
  "memberValue dir fileMap name =
     JArray (map (\<lambda>v. JString (stored dir v))
               (case obj_get fileMap name of None \<Rightarrow> [] | Some vs \<Rightarrow> vs))"

text \<open>
  A key whose line is JSON: the key and its stored paths are \<open>json_safe\<close>, and the key
  has a path.
\<close>

definition safe_entry :: "string \<Rightarrow> FileMapType \<Rightarrow> string \<Rightarrow> bool" where
  "safe_entry dir fileMap name =
     (json_safe name \<and>
      (case obj_get fileMap name of
         None \<Rightarrow> False
       | Some vs \<Rightarrow> vs \<noteq> [] \<and> list_all (\<lambda>v. json_safe (stored dir v)) vs))"

text \<open>The members of the \<^verbatim>\<open>paths\<close> object after the lines of the given keys were read.\<close>

definition parsedMembers ::
  "string \<Rightarrow> FileMapType \<Rightarrow> string list \<Rightarrow> (string \<times> json) list \<Rightarrow> (string \<times> json) list" where
  "parsedMembers dir fileMap names ms =
     foldl (\<lambda>ms name. obj_set name (memberValue dir fileMap name) ms) ms names"

text \<open>The stack of the parser inside the \<^verbatim>\<open>paths\<close> object, and the value of the file.\<close>

definition pathsStack :: "frame list" where
  "pathsStack = [FObj [] ''paths'', FObj [] ''compilerOptions'']"

definition parsedFile :: "(string \<times> json) list \<Rightarrow> json" where
  "parsedFile ms = JObject [(''compilerOptions'', JObject [(''paths'', JObject ms)])]"

definition fileHeader :: "string list" where
  \<open>fileHeader = [''{'', ''  "compilerOptions": {'', ''    "paths": {'']\<close>

definition fileFooter :: "string list" where
  "fileFooter = [''    }'', ''  }'', ''}'']"

text \<open>The sequence of a key after its stored paths were resolved again.\<close>

definition resolvedSeq :: "string \<Rightarrow> FileMapType \<Rightarrow> string \<Rightarrow> string list" where
  "resolvedSeq dir fileMap k =
     map (\<lambda>v. path_resolve dir (stored dir v))
       (case obj_get fileMap k of None \<Rightarrow> [] | Some vs \<Rightarrow> vs)"

text \<open>One step of \<open>normalizeSegments\<close>, and the segments that it keeps.\<close>

definition normStep :: "string list \<Rightarrow> string \<Rightarrow> string list" where
  "normStep st s = (if s = [] \<or> s = ''.'' then st else if s = ''..'' then tl st else s # st)"

definition normal_seg :: "string \<Rightarrow> bool" where
  "normal_seg s = (s \<noteq> [] \<and> s \<noteq> ''.'' \<and> s \<noteq> ''..'' \<and> CHR ''/'' \<notin> set s)"

subsection \<open>The bootstrap\<close>

text \<open>
  The promise that \<^verbatim>\<open>createAliasMap\<close> returns is built with
  \<^verbatim>\<open>new Promise(resolve => ...)\<close>: it is resolved by a call of \<^verbatim>\<open>resolve\<close> inside a
  callback, and an exception thrown in such a callback does not reach it. \<open>Pending\<close> is
  the promise that is never settled, and \<open>Unmodelled\<close> stands for the promise of a call
  that leaves the model. The model records the exceptions that no handler catches, whether
  \<^verbatim>\<open>chokidar.watch\<close> was called, the file map, and whether the call set the flag in
  \<^verbatim>\<open>process.env\<close>. An entry \<open>NotModelled\<close> among the exceptions stands for a call of
  \<^verbatim>\<open>processWatcherEvent\<close> whose write leaves the model. The inputs besides the source
  specifications are the value of the flag, the outcome of \<^verbatim>\<open>readFile\<close>, and the events
  that the watcher delivers before it is ready; writing the file is taken to succeed.
\<close>

datatype 'a promise = Resolved 'a | Rejected js_error | Pending | Unmodelled

record bootstrap =
  result :: "CreateViteAliasMapReturnType list promise"
  uncaught :: "failure list"
  watching :: bool
  fileMapAfter :: FileMapType
  flagSet :: bool

fun watcherEvents ::
  "host_locale \<Rightarrow> string \<Rightarrow> CreateAliasInputType list \<Rightarrow> FileMapType \<Rightarrow> (evt \<times> string) list
   \<Rightarrow> FileMapType \<times> failure list" where
  "watcherEvents loc dir aliasArray fileMap [] = (fileMap, [])"
| "watcherEvents loc dir aliasArray fileMap ((ev, p) # es) =
     (case processWatcherEvent loc dir ev p fileMap aliasArray of
        (fm, r) \<Rightarrow>
          (case watcherEvents loc dir aliasArray fm es of
             (fm', errs) \<Rightarrow> (fm', (case r of Inl e \<Rightarrow> [e] | Inr _ \<Rightarrow> []) @ errs)))"

definition createAliasMap ::
  "host_locale \<Rightarrow> string \<Rightarrow> bool \<Rightarrow> js_error + string \<Rightarrow> (evt \<times> string) list
   \<Rightarrow> CreateAliasInputType list \<Rightarrow> bootstrap" where
  "createAliasMap loc dir isInitialized file events arr =
     (let aliasArray = map (\<lambda>item. item\<lparr>sourcePath := path_resolve dir (sourcePath item)\<rparr>) arr
      in if isInitialized then
           (case file of
              Inl e \<Rightarrow>
                \<lparr>result = Pending, uncaught = [Thrown e], watching = False,
                 fileMapAfter = [], flagSet = False\<rparr>
            | Inr tsconfigPathsFileContents \<Rightarrow>
                (case tsConfigPathsToFileMap dir tsconfigPathsFileContents of
                   Inl NotModelled \<Rightarrow>
                     \<lparr>result = Unmodelled, uncaught = [], watching = False,
                      fileMapAfter = [], flagSet = False\<rparr>
                 | Inl (Thrown e) \<Rightarrow>
                     \<lparr>result = Pending, uncaught = [Thrown e], watching = False,
                      fileMapAfter = [], flagSet = False\<rparr>
                 | Inr fileMap \<Rightarrow>
                     (case createViteAliasMap dir fileMap of
                        Inl e \<Rightarrow>
                          \<lparr>result = Pending, uncaught = [Thrown e], watching = False,
                           fileMapAfter = fileMap, flagSet = False\<rparr>
                      | Inr (aliasMap, logged) \<Rightarrow>
                          \<lparr>result = Resolved aliasMap, uncaught = [], watching = False,
                           fileMapAfter = fileMap, flagSet = False\<rparr>)))
         else
           (case watcherEvents loc dir aliasArray [] events of
              (fileMap, errs) \<Rightarrow>
                (case createViteAliasMap dir fileMap of
                   Inl e \<Rightarrow>
                     \<lparr>result = Pending, uncaught = errs @ [Thrown e], watching = True,
                      fileMapAfter = fileMap, flagSet = False\<rparr>
                 | Inr (aliasMap, logged) \<Rightarrow>
                     (case writeTsConfigPathsJSON loc dir fileMap of
                        Inl NotModelled \<Rightarrow>
                          \<lparr>result = Unmodelled, uncaught = errs, watching = True,
                           fileMapAfter = fileMap, flagSet = False\<rparr>
                      | Inl (Thrown e) \<Rightarrow>
                          \<lparr>result = Pending, uncaught = errs @ [Thrown e], watching = True,
                           fileMapAfter = fileMap, flagSet = False\<rparr>
                      | Inr contents \<Rightarrow>
                          \<lparr>result = Resolved aliasMap, uncaught = errs, watching = True,
                           fileMapAfter = fileMap, flagSet = True\<rparr>))))"

subsection \<open>Example inputs\<close>

definition example_specs :: "CreateAliasInputType list" where
  "example_specs =
     [\<lparr>sourcePath = ''/app/src'', extensions = [''.ts'', ''.tsx''], prefix = None\<rparr>]"

definition prefixed_specs :: "CreateAliasInputType list" where
  "prefixed_specs =
     [\<lparr>sourcePath = ''/app/src/components'', extensions = [''.tsx''],
       prefix = Some ''@components''\<rparr>]"

text \<open>
  Two specifications whose directories are siblings, the name of one starting the name of
  the other, and one specification whose prefix is the empty string.
\<close>

definition src_spec :: CreateAliasInputType where
  "src_spec = \<lparr>sourcePath = ''/app/src'', extensions = [''.ts''], prefix = Some ''@s''\<rparr>"

definition srcfoo_spec :: CreateAliasInputType where
  "srcfoo_spec = \<lparr>sourcePath = ''/app/srcfoo'', extensions = [''.ts''], prefix = Some ''@foo''\<rparr>"

definition empty_prefix_spec :: CreateAliasInputType where
  "empty_prefix_spec = \<lparr>sourcePath = ''/app/src'', extensions = [''.ts''], prefix = Some ''''\<rparr>"

text \<open>The registry after the files \<^verbatim>\<open>Zeta\<close>, \<^verbatim>\<open>alpha\<close> and \<^verbatim>\<open>Beta\<close> were added, in this order.\<close>

definition zeta_alpha_beta :: FileMapType where
  "zeta_alpha_beta =
     fst (processWatcherEvent OtherLocale ''/app'' Add ''/app/src/Beta.ts''
       (fst (processWatcherEvent OtherLocale ''/app'' Add ''/app/src/alpha.ts''
         (fst (processWatcherEvent OtherLocale ''/app'' Add ''/app/src/Zeta.ts'' [] example_specs))
         example_specs)) example_specs)"

text \<open>
  The registry after the files \<^verbatim>\<open>j\<close>, \<^verbatim>\<open>I\<close> and \<^verbatim>\<open>k\<close> were added, in this order, on a
  host whose locale is Turkish.
\<close>

definition j_I_k :: FileMapType where
  "j_I_k =
     fst (processWatcherEvent Turkic ''/app'' Add ''/app/src/k.ts''
       (fst (processWatcherEvent Turkic ''/app'' Add ''/app/src/I.ts''
         (fst (processWatcherEvent Turkic ''/app'' Add ''/app/src/j.ts'' [] example_specs))
         example_specs)) example_specs)"

text \<open>The registry after one file whose name has a double quote in it was added.\<close>

definition quoted_registry :: FileMapType where
  \<open>quoted_registry =
     fst (processWatcherEvent OtherLocale ''/app'' Add ''/app/src/a"b.ts'' [] example_specs)\<close>

section \<open>Properties\<close>

subsection \<open>Objects\<close>

lemma obj_get_replace:
  "obj_get (obj_replace k v ob) k' =
     (if k' = k \<and> obj_get ob k \<noteq> None then Some v else obj_get ob k')"
  by (induction ob) (auto simp: obj_get_def)

lemma obj_get_insert_index:
  "obj_get (obj_insert_index k v ob) k' = (if k' = k then Some v else obj_get ob k')"
  by (induction ob) (auto simp: obj_get_def)

lemma obj_get_set:
  "obj_get (obj_set k v ob) k' = (if k' = k then Some v else obj_get ob k')"
  by (auto simp: obj_set_def obj_get_replace obj_get_insert_index)
     (auto simp: obj_get_def map_add_def split: option.splits)

lemma obj_get_delete:
  "obj_get (obj_delete k ob) k' = (if k' = k then None else obj_get ob k')"
  by (induction ob) (auto simp: obj_get_def obj_delete_def)

lemma others_replace:
  "filter (\<lambda>e. fst e \<noteq> k) (obj_replace k v ob) = filter (\<lambda>e. fst e \<noteq> k) ob"
  by (induction ob) auto

lemma others_insert_index:
  "filter (\<lambda>e. fst e \<noteq> k) (obj_insert_index k v ob) = filter (\<lambda>e. fst e \<noteq> k) ob"
  by (induction ob) auto

lemma others_set:
  "filter (\<lambda>e. fst e \<noteq> k) (obj_set k v ob) = filter (\<lambda>e. fst e \<noteq> k) ob"
  by (simp add: obj_set_def others_replace others_insert_index)

lemma others_delete:
  "filter (\<lambda>e. fst e \<noteq> k) (obj_delete k ob) = filter (\<lambda>e. fst e \<noteq> k) ob"
  by (simp add: obj_delete_def)

lemma obj_delete_absent:
  "obj_get ob k = None \<Longrightarrow> obj_delete k ob = ob"
  by (induction ob) (auto simp: obj_get_def obj_delete_def split: if_splits)

lemma obj_delete_set:
  "obj_delete k (obj_set k v ob) = obj_delete k ob"
  using others_set [of k v ob] by (simp add: obj_delete_def)

lemma obj_delete_replace:
  "obj_delete k (obj_replace k v ob) = obj_delete k ob"
  using others_replace [of k v ob] by (simp add: obj_delete_def)

lemma obj_replace_same:
  "obj_get ob k = Some v \<Longrightarrow> obj_replace k v ob = ob"
  by (induction ob) (auto simp: obj_get_def split: if_splits)

lemma obj_replace_twice:
  "obj_replace k v (obj_replace k w ob) = obj_replace k v ob"
  by (induction ob) auto

lemma nonempty_seqs_replace:
  "nonempty_seqs ob \<Longrightarrow> v \<noteq> [] \<Longrightarrow> nonempty_seqs (obj_replace k v ob)"
  by (induction ob) (auto simp: nonempty_seqs_def)

lemma nonempty_seqs_insert_index:
  "nonempty_seqs ob \<Longrightarrow> v \<noteq> [] \<Longrightarrow> nonempty_seqs (obj_insert_index k v ob)"
  by (induction ob) (auto simp: nonempty_seqs_def)

lemma nonempty_seqs_set:
  "nonempty_seqs ob \<Longrightarrow> v \<noteq> [] \<Longrightarrow> nonempty_seqs (obj_set k v ob)"
  by (auto simp: obj_set_def nonempty_seqs_replace nonempty_seqs_insert_index)
     (simp add: nonempty_seqs_def)

lemma nonempty_seqs_delete:
  "nonempty_seqs ob \<Longrightarrow> nonempty_seqs (obj_delete k ob)"
  by (simp add: nonempty_seqs_def obj_delete_def list_all_iff)

lemma nonempty_seqs_get:
  "nonempty_seqs ob \<Longrightarrow> obj_get ob k = Some ps \<Longrightarrow> ps \<noteq> []"
  by (auto simp: nonempty_seqs_def obj_get_def list_all_iff dest!: map_of_SomeD)

subsection \<open>The file map after an event\<close>

lemma proto_inherited: "''__proto__'' \<in> set prototype_names"
  by (simp add: prototype_names_def)

lemma obj_assign_own: "obj_get ob k \<noteq> None \<Longrightarrow> obj_assign k v ob = obj_set k v ob"
  by (auto simp: obj_assign_def)

lemma obj_assign_fresh: "k \<notin> set prototype_names \<Longrightarrow> obj_assign k v ob = obj_set k v ob"
  using proto_inherited by (auto simp: obj_assign_def)

lemma obj_read_Own: "obj_read ob k = Own v \<longleftrightarrow> obj_get ob k = Some v"
  by (simp add: obj_read_def split: option.splits)

lemma obj_read_Inherited:
  "obj_read ob k = Inherited \<longleftrightarrow> obj_get ob k = None \<and> k \<in> set prototype_names"
  by (simp add: obj_read_def split: option.splits)

lemma obj_read_Undefined:
  "obj_read ob k = Undefined \<longleftrightarrow> obj_get ob k = None \<and> k \<notin> set prototype_names"
  by (simp add: obj_read_def split: option.splits)

lemma add_inherited:
  "obj_read fileMap (mapKey p arr) = Inherited \<Longrightarrow>
     processWatcherEvent loc dir Add p fileMap arr = (fileMap, Inl (Thrown TypeError))"
  by (simp add: processWatcherEvent_def)

lemma fst_add:
  "fst (processWatcherEvent loc dir Add p fileMap arr) =
     (if obj_read fileMap (mapKey p arr) = Inherited then fileMap
      else obj_set (mapKey p arr)
             ((case obj_get fileMap (mapKey p arr) of None \<Rightarrow> [] | Some ps \<Rightarrow> ps) @ [p])
             fileMap)"
proof (cases "obj_read fileMap (mapKey p arr)")
  case (Own ps)
  then have "obj_get fileMap (mapKey p arr) = Some ps" by (simp add: obj_read_Own)
  with Own show ?thesis by (simp add: processWatcherEvent_def Let_def obj_assign_own)
next
  case Inherited
  then show ?thesis by (simp add: processWatcherEvent_def)
next
  case Undefined
  then have "obj_get fileMap (mapKey p arr) = None" "mapKey p arr \<notin> set prototype_names"
    by (simp_all add: obj_read_Undefined)
  with Undefined show ?thesis by (simp add: processWatcherEvent_def Let_def obj_assign_fresh)
qed

lemma fst_unlink:
  "fst (processWatcherEvent loc dir Unlink p fileMap arr) =
     (case obj_get fileMap (mapKey p arr) of
        None \<Rightarrow> fileMap
      | Some ps \<Rightarrow>
          if filter (\<lambda>v. v \<noteq> p) ps = [] then obj_delete (mapKey p arr) fileMap
          else obj_replace (mapKey p arr) (filter (\<lambda>v. v \<noteq> p) ps) fileMap)"
proof (cases "obj_get fileMap (mapKey p arr)")
  case None
  then have "obj_read fileMap (mapKey p arr) = Inherited \<or> obj_read fileMap (mapKey p arr) = Undefined"
    by (simp add: obj_read_def)
  with None show ?thesis by (auto simp: processWatcherEvent_def)
next
  case (Some ps)
  then have "obj_read fileMap (mapKey p arr) = Own ps" by (simp add: obj_read_Own)
  with Some show ?thesis
    by (simp add: processWatcherEvent_def Let_def obj_assign_own obj_delete_set obj_set_def
                  obj_delete_replace)
qed

lemma mapKey_example:
  "mapKey ''/app/src/App.tsx'' example_specs = ''App''"
  "mapKey ''/app/src/a/App.tsx'' example_specs = ''App''"
  "mapKey ''/app/src/b/App.tsx'' example_specs = ''App''"
  "mapKey ''/app/src/Zeta.ts'' example_specs = ''Zeta''"
  "mapKey ''/app/src/alpha.ts'' example_specs = ''alpha''"
  "mapKey ''/app/src/Beta.ts'' example_specs = ''Beta''"
  "mapKey ''/app/src/constructor.ts'' example_specs = ''constructor''"
  "mapKey ''/app/src/j.ts'' example_specs = ''j''"
  "mapKey ''/app/src/I.ts'' example_specs = ''I''"
  "mapKey ''/app/src/k.ts'' example_specs = ''k''"
  by (simp_all add: mapKey_def getImportPrefix_def example_specs_def startsWith_def
                    path_parse_name_def path_base_def Let_def)

lemma read_example:
  "obj_read [(''App'', [''/app/src/App.tsx''])] ''App'' = Own [''/app/src/App.tsx'']"
  "obj_read [(''App'', [''/app/src/a/App.tsx''])] ''App'' = Own [''/app/src/a/App.tsx'']"
  "obj_read ([] :: FileMapType) ''App'' = Undefined"
  "obj_read ([] :: FileMapType) ''constructor'' = Inherited"
  by (simp_all add: obj_read_def obj_get_def prototype_names_def)

text \<open>
  C3. The registry invariant is kept by every event: if no key is bound to an empty
  sequence before \<^verbatim>\<open>processWatcherEvent\<close>, none is afterwards. An \<^verbatim>\<open>add\<close> never leaves
  the key of its path bound to an empty sequence: either the key is a name that the map
  inherits and does not own, and then the \<^verbatim>\<open>add\<close> throws and leaves the map as it was,
  or the key is bound afterwards to the sequence that it had, followed by the path. An
  \<^verbatim>\<open>unlink\<close> that filters the last path out of the sequence deletes the key.
\<close>

theorem registry_invariant_preserved:
  "nonempty_seqs fileMap \<Longrightarrow>
     nonempty_seqs (fst (processWatcherEvent loc dir ev p fileMap arr))
     \<and> obj_get (fst (processWatcherEvent loc dir Add p fileMap arr)) (mapKey p arr) \<noteq> Some []
     \<and> (obj_read fileMap (mapKey p arr) = Inherited \<longrightarrow>
           processWatcherEvent loc dir Add p fileMap arr = (fileMap, Inl (Thrown TypeError)))
     \<and> (obj_read fileMap (mapKey p arr) \<noteq> Inherited \<longrightarrow>
           obj_get (fst (processWatcherEvent loc dir Add p fileMap arr)) (mapKey p arr)
             = Some ((case obj_get fileMap (mapKey p arr) of None \<Rightarrow> [] | Some ps \<Rightarrow> ps) @ [p]))
     \<and> (\<forall>ps. obj_get fileMap (mapKey p arr) = Some ps \<and> filter (\<lambda>v. v \<noteq> p) ps = [] \<longrightarrow>
           obj_get (fst (processWatcherEvent loc dir Unlink p fileMap arr)) (mapKey p arr) = None)"
proof (intro conjI allI impI)
  assume inv: "nonempty_seqs fileMap"
  show "nonempty_seqs (fst (processWatcherEvent loc dir ev p fileMap arr))"
  proof (cases ev)
    case Add
    then show ?thesis using inv by (simp add: fst_add nonempty_seqs_set)
  next
    case Unlink
    then show ?thesis using inv
      by (auto simp: fst_unlink nonempty_seqs_delete nonempty_seqs_replace split: option.splits)
  qed
next
  assume inv: "nonempty_seqs fileMap"
  show "obj_get (fst (processWatcherEvent loc dir Add p fileMap arr)) (mapKey p arr) \<noteq> Some []"
  proof (cases "obj_read fileMap (mapKey p arr) = Inherited")
    case True
    then show ?thesis by (simp add: fst_add obj_read_Inherited)
  next
    case False
    then show ?thesis by (simp add: fst_add obj_get_set)
  qed
next
  assume "obj_read fileMap (mapKey p arr) = Inherited"
  then show "processWatcherEvent loc dir Add p fileMap arr = (fileMap, Inl (Thrown TypeError))"
    by (rule add_inherited)
next
  assume "obj_read fileMap (mapKey p arr) \<noteq> Inherited"
  then show "obj_get (fst (processWatcherEvent loc dir Add p fileMap arr)) (mapKey p arr)
             = Some ((case obj_get fileMap (mapKey p arr) of None \<Rightarrow> [] | Some ps \<Rightarrow> ps) @ [p])"
    by (simp add: fst_add obj_get_set)
next
  fix ps
  assume "obj_get fileMap (mapKey p arr) = Some ps \<and> filter (\<lambda>v. v \<noteq> p) ps = []"
  then show "obj_get (fst (processWatcherEvent loc dir Unlink p fileMap arr)) (mapKey p arr) = None"
    by (simp add: fst_unlink obj_get_delete)
qed

theorem registry_invariant_preserved_witness:
  "nonempty_seqs [(''App'', [''/app/src/App.tsx''])]
   \<and> nonempty_seqs (fst (processWatcherEvent OtherLocale ''/app'' Unlink ''/app/src/App.tsx''
                          [(''App'', [''/app/src/App.tsx''])] example_specs))
   \<and> obj_get [(''App'', [''/app/src/App.tsx''])] (mapKey ''/app/src/App.tsx'' example_specs)
       = Some [''/app/src/App.tsx'']
   \<and> obj_get (fst (processWatcherEvent OtherLocale ''/app'' Unlink ''/app/src/App.tsx''
                     [(''App'', [''/app/src/App.tsx''])] example_specs))
         (mapKey ''/app/src/App.tsx'' example_specs) = None
   \<and> obj_read [(''App'', [''/app/src/App.tsx''])] (mapKey ''/app/src/App.tsx'' example_specs)
       \<noteq> Inherited
   \<and> obj_get (fst (processWatcherEvent OtherLocale ''/app'' Add ''/app/src/App.tsx''
                     [(''App'', [''/app/src/App.tsx''])] example_specs))
         (mapKey ''/app/src/App.tsx'' example_specs)
       = Some [''/app/src/App.tsx'', ''/app/src/App.tsx'']
   \<and> nonempty_seqs ([] :: FileMapType)
   \<and> obj_read ([] :: FileMapType) (mapKey ''/app/src/constructor.ts'' example_specs) = Inherited
   \<and> processWatcherEvent OtherLocale ''/app'' Add ''/app/src/constructor.ts'' [] example_specs
       = ([], Inl (Thrown TypeError))"
proof -
  have inv: "nonempty_seqs [(''App'', [''/app/src/App.tsx''])]"
    by (simp add: nonempty_seqs_def)
  have g: "obj_get [(''App'', [''/app/src/App.tsx''])] (mapKey ''/app/src/App.tsx'' example_specs)
             = Some [''/app/src/App.tsx'']"
    by (simp add: mapKey_example obj_get_def)
  have r: "obj_read [(''App'', [''/app/src/App.tsx''])] (mapKey ''/app/src/App.tsx'' example_specs)
             \<noteq> Inherited"
    by (simp add: mapKey_example read_example)
  note c3 = registry_invariant_preserved
              [OF inv, of OtherLocale "''/app''" Unlink "''/app/src/App.tsx''" example_specs]
  from c3 have 1: "nonempty_seqs (fst (processWatcherEvent OtherLocale ''/app'' Unlink
                          ''/app/src/App.tsx'' [(''App'', [''/app/src/App.tsx''])] example_specs))"
    by (rule conjunct1)
  from c3 g have 2: "obj_get (fst (processWatcherEvent OtherLocale ''/app'' Unlink
                     ''/app/src/App.tsx'' [(''App'', [''/app/src/App.tsx''])] example_specs))
         (mapKey ''/app/src/App.tsx'' example_specs) = None"
    by simp
  from c3 r have "obj_get (fst (processWatcherEvent OtherLocale ''/app'' Add ''/app/src/App.tsx''
                     [(''App'', [''/app/src/App.tsx''])] example_specs))
         (mapKey ''/app/src/App.tsx'' example_specs)
       = Some ((case obj_get [(''App'', [''/app/src/App.tsx''])]
                       (mapKey ''/app/src/App.tsx'' example_specs) of
                  None \<Rightarrow> [] | Some ps \<Rightarrow> ps) @ [''/app/src/App.tsx''])"
    by blast
  with g have 3: "obj_get (fst (processWatcherEvent OtherLocale ''/app'' Add ''/app/src/App.tsx''
                     [(''App'', [''/app/src/App.tsx''])] example_specs))
         (mapKey ''/app/src/App.tsx'' example_specs)
       = Some [''/app/src/App.tsx'', ''/app/src/App.tsx'']"
    by simp
  have inv0: "nonempty_seqs ([] :: FileMapType)"
    by (simp add: nonempty_seqs_def)
  have i: "obj_read ([] :: FileMapType) (mapKey ''/app/src/constructor.ts'' example_specs)
             = Inherited"
    by (simp add: mapKey_example read_example)
  from registry_invariant_preserved
         [OF inv0, of OtherLocale "''/app''" Add "''/app/src/constructor.ts''" example_specs] i
  have 4: "processWatcherEvent OtherLocale ''/app'' Add ''/app/src/constructor.ts'' [] example_specs
             = ([], Inl (Thrown TypeError))"
    by blast
  from inv g 1 2 r 3 inv0 i 4 show ?thesis by (intro conjI)
qed

text \<open>
  C4, as amended. If no key is bound to an empty sequence and the path is not yet in the
  sequence of its key, then \<^verbatim>\<open>add\<close> followed by \<^verbatim>\<open>unlink\<close> of that path gives the file
  map back, with its keys in the same order; a key that was absent is absent again.
\<close>

theorem add_then_unlink_restores:
  assumes "nonempty_seqs fileMap"
    and "p \<notin> set (case obj_get fileMap (mapKey p arr) of None \<Rightarrow> [] | Some ps \<Rightarrow> ps)"
  shows "fst (processWatcherEvent loc dir Unlink p
                (fst (processWatcherEvent loc dir Add p fileMap arr)) arr) = fileMap"
proof (cases "obj_get fileMap (mapKey p arr)")
  case None
  show ?thesis
  proof (cases "obj_read fileMap (mapKey p arr) = Inherited")
    case True
    with None show ?thesis by (simp add: fst_unlink fst_add)
  next
    case False
    with None show ?thesis
      by (simp add: fst_unlink fst_add obj_get_set obj_delete_set obj_delete_absent)
  qed
next
  case (Some ps)
  with assms have ne: "ps \<noteq> []" and notin: "p \<notin> set ps"
    by (auto dest: nonempty_seqs_get)
  from notin have f: "filter (\<lambda>v. v \<noteq> p) ps = ps"
    by (induction ps) auto
  from Some have own: "obj_read fileMap (mapKey p arr) \<noteq> Inherited"
    by (simp add: obj_read_Inherited)
  show ?thesis using Some ne f own
    by (simp add: fst_unlink fst_add obj_get_set obj_set_def obj_get_replace obj_replace_twice
                  obj_replace_same)
qed

theorem add_then_unlink_restores_witness:
  "nonempty_seqs [(''App'', [''/app/src/a/App.tsx''])]
   \<and> ''/app/src/b/App.tsx'' \<notin> set (case obj_get [(''App'', [''/app/src/a/App.tsx''])]
                                          (mapKey ''/app/src/b/App.tsx'' example_specs) of
                                     None \<Rightarrow> [] | Some ps \<Rightarrow> ps)
   \<and> fst (processWatcherEvent OtherLocale ''/app'' Unlink ''/app/src/b/App.tsx''
          (fst (processWatcherEvent OtherLocale ''/app'' Add ''/app/src/b/App.tsx''
                  [(''App'', [''/app/src/a/App.tsx''])] example_specs)) example_specs)
       = [(''App'', [''/app/src/a/App.tsx''])]"
proof -
  have inv: "nonempty_seqs [(''App'', [''/app/src/a/App.tsx''])]"
    by (simp add: nonempty_seqs_def)
  have fresh: "''/app/src/b/App.tsx'' \<notin> set (case obj_get [(''App'', [''/app/src/a/App.tsx''])]
                                          (mapKey ''/app/src/b/App.tsx'' example_specs) of
                                     None \<Rightarrow> [] | Some ps \<Rightarrow> ps)"
    by (simp add: mapKey_example obj_get_def)
  from inv fresh add_then_unlink_restores [OF inv fresh, of OtherLocale "''/app''"]
  show ?thesis by simp
qed

text \<open>
  C4, as stated, fails for a path that the registry already holds: the \<^verbatim>\<open>add\<close> appends a
  second copy, the \<^verbatim>\<open>unlink\<close> filters both copies out and deletes the key.
\<close>

theorem add_then_unlink_counterexample:
  "fst (processWatcherEvent OtherLocale ''/app'' Unlink ''/app/src/App.tsx''
          (fst (processWatcherEvent OtherLocale ''/app'' Add ''/app/src/App.tsx''
                  [(''App'', [''/app/src/App.tsx''])] example_specs)) example_specs)
     \<noteq> [(''App'', [''/app/src/App.tsx''])]"
  by (simp add: fst_add fst_unlink mapKey_example read_example obj_get_def obj_set_def
                obj_delete_def)

text \<open>
  C5. An \<^verbatim>\<open>unlink\<close> for a path whose key the registry does not have throws a TypeError:
  the file map is left as it was, and the promise of \<^verbatim>\<open>processWatcherEvent\<close> is rejected.
\<close>

theorem unlink_absent_key_throws:
  "processWatcherEvent loc ''/app'' Unlink ''/app/src/App.tsx'' [] example_specs
     = ([], Inl (Thrown TypeError))"
  by (simp add: processWatcherEvent_def mapKey_example read_example)

text \<open>
  When the key is present and the path is not in its sequence, the \<^verbatim>\<open>unlink\<close> changes
  nothing and the file is written again.
\<close>

lemma unlink_other_path_noop:
  assumes "nonempty_seqs fileMap"
    and "obj_get fileMap (mapKey p arr) = Some ps" and "p \<notin> set ps"
  shows "fst (processWatcherEvent loc dir Unlink p fileMap arr) = fileMap"
proof -
  from assms(3) have f: "filter (\<lambda>v. v \<noteq> p) ps = ps"
    by (induction ps) auto
  from assms(1,2) have "ps \<noteq> []" by (rule nonempty_seqs_get)
  with f assms(2) show ?thesis
    by (simp add: fst_unlink obj_replace_same)
qed

text \<open>
  C9. One \<^verbatim>\<open>unlink\<close> removes every occurrence of the path from the sequence of its key:
  what is left under the key is the sequence filtered, or nothing when the filter left
  nothing.
\<close>

theorem unlink_removes_every_occurrence:
  "obj_get fileMap (mapKey p arr) = Some ps \<Longrightarrow>
     (case obj_get (fst (processWatcherEvent loc dir Unlink p fileMap arr)) (mapKey p arr) of
        None \<Rightarrow> filter (\<lambda>v. v \<noteq> p) ps = []
      | Some ps' \<Rightarrow> ps' = filter (\<lambda>v. v \<noteq> p) ps \<and> p \<notin> set ps')"
  by (auto simp: fst_unlink obj_get_delete obj_get_replace)

theorem unlink_removes_every_occurrence_witness:
  "obj_get [(''App'', [''/app/src/b/App.tsx'', ''/app/src/a/App.tsx'', ''/app/src/b/App.tsx''])]
      (mapKey ''/app/src/b/App.tsx'' example_specs)
     = Some [''/app/src/b/App.tsx'', ''/app/src/a/App.tsx'', ''/app/src/b/App.tsx'']
   \<and> obj_get (fst (processWatcherEvent OtherLocale ''/app'' Unlink ''/app/src/b/App.tsx''
         [(''App'', [''/app/src/b/App.tsx'', ''/app/src/a/App.tsx'', ''/app/src/b/App.tsx''])]
         example_specs)) (mapKey ''/app/src/b/App.tsx'' example_specs)
     = Some [''/app/src/a/App.tsx'']"
proof -
  have g: "obj_get
      [(''App'', [''/app/src/b/App.tsx'', ''/app/src/a/App.tsx'', ''/app/src/b/App.tsx''])]
      (mapKey ''/app/src/b/App.tsx'' example_specs)
     = Some [''/app/src/b/App.tsx'', ''/app/src/a/App.tsx'', ''/app/src/b/App.tsx'']"
    by (simp add: mapKey_example obj_get_def)
  from unlink_removes_every_occurrence [OF g, of OtherLocale "''/app''"] g show ?thesis
    by (simp split: option.splits)
qed

text \<open>
  C10. An event touches the entry of the key of its path only: the other entries of the
  file map, and their order, are the same before and after, and so is every lookup of
  another key.
\<close>

theorem processWatcherEvent_frame:
  "filter (\<lambda>e. fst e \<noteq> mapKey p arr) (fst (processWatcherEvent loc dir ev p fileMap arr))
     = filter (\<lambda>e. fst e \<noteq> mapKey p arr) fileMap
   \<and> (\<forall>k. k \<noteq> mapKey p arr \<longrightarrow>
         obj_get (fst (processWatcherEvent loc dir ev p fileMap arr)) k = obj_get fileMap k)"
  by (cases ev)
     (auto simp: fst_add fst_unlink others_set others_delete others_replace obj_get_set
                 obj_get_delete obj_get_replace split: option.splits)

theorem processWatcherEvent_frame_witness:
  "''Other'' \<noteq> mapKey ''/app/src/b/App.tsx'' example_specs
   \<and> obj_get (fst (processWatcherEvent OtherLocale ''/app'' Add ''/app/src/b/App.tsx''
         [(''Other'', [''/app/src/Other.ts'']), (''App'', [''/app/src/a/App.tsx''])]
         example_specs)) ''Other''
     = Some [''/app/src/Other.ts'']"
proof -
  have k: "''Other'' \<noteq> mapKey ''/app/src/b/App.tsx'' example_specs"
    by (simp add: mapKey_example)
  from processWatcherEvent_frame [of "''/app/src/b/App.tsx''" example_specs OtherLocale "''/app''"
              Add "[(''Other'', [''/app/src/Other.ts'']), (''App'', [''/app/src/a/App.tsx''])]"] k
  show ?thesis by (simp add: obj_get_def)
qed

subsection \<open>The module key\<close>

lemma path_base_last:
  assumes "b \<noteq> []" "CHR ''/'' \<notin> set b"
  shows "path_base (d @ CHR ''/'' # b) = b"
proof -
  obtain c cs where rb: "rev b = c # cs"
    using assms(1) by (cases "rev b") auto
  have "c \<in> set b" using rb by (metis list.set_intros(1) set_rev)
  then have c: "c \<noteq> CHR ''/''" using assms(2) by auto
  have cs: "CHR ''/'' \<notin> set cs"
    using rb assms(2) by (metis list.set_intros(2) set_rev)
  have "path_base (d @ CHR ''/'' # b)
          = rev (takeWhile (\<lambda>c. c \<noteq> CHR ''/'') (c # cs @ CHR ''/'' # rev d))"
    using c by (simp add: path_base_def rb)
  also have "\<dots> = rev (c # cs)"
    using c cs by (auto simp: takeWhile_tail)
  also have "\<dots> = b" using rb by (metis rev_rev_ident)
  finally show ?thesis .
qed

lemma parse_name_ext:
  assumes "n \<noteq> []" "CHR ''/'' \<notin> set (n @ e)" "CHR ''.'' \<notin> set e" "(n, e) \<noteq> (''.'', [])"
  shows "path_parse_name (d @ CHR ''/'' # n @ CHR ''.'' # e) = n"
proof -
  have b: "path_base (d @ CHR ''/'' # n @ CHR ''.'' # e) = n @ CHR ''.'' # e"
    using path_base_last [of "n @ CHR ''.'' # e" d] assms by simp
  have t: "takeWhile (\<lambda>c. c \<noteq> CHR ''.'') (rev e @ CHR ''.'' # rev n) = rev e"
    using assms(3) by (auto simp: takeWhile_tail)
  have ne: "n @ CHR ''.'' # e \<noteq> ''..''"
  proof
    assume eq: "n @ CHR ''.'' # e = ''..''"
    then have "length n + Suc (length e) = 2"
      by (metis length_append length_Cons list.size(3) numeral_2_eq_2)
    with assms(1) have "length n = 1" "e = []" by (cases n; cases e; simp)+
    with eq have "n = ''.''" by (cases n) auto
    with \<open>e = []\<close> assms(4) show False by simp
  qed
  show ?thesis using assms(1) ne by (simp add: path_parse_name_def b t Let_def)
qed

lemma parse_name_noext:
  assumes "b \<noteq> []" "CHR ''/'' \<notin> set b" "CHR ''.'' \<notin> set b"
  shows "path_parse_name (d @ CHR ''/'' # b) = b"
  using assms by (simp add: path_parse_name_def path_base_last Let_def)

lemma startsWith_root: "inRoot item p \<Longrightarrow> startsWith p (sourcePath item)"
proof -
  assume "inRoot item p"
  then have t: "take (Suc (length (sourcePath item))) p = sourcePath item @ ''/''"
    by (simp add: inRoot_def startsWith_def)
  have "take (length (sourcePath item)) p
          = take (length (sourcePath item)) (take (Suc (length (sourcePath item))) p)"
    by (simp add: min_def)
  also have "\<dots> = sourcePath item" by (simp only: t) simp
  finally show ?thesis by (simp add: startsWith_def)
qed

lemma find_first:
  "list_all (\<lambda>j. \<not> P j) before \<Longrightarrow> P item \<Longrightarrow> find P (before @ item # after) = Some item"
  by (induction before) auto

lemma find_none: "list_all (\<lambda>j. \<not> P j) xs \<Longrightarrow> find P xs = None"
  by (induction xs) auto

text \<open>
  C8, as amended. Let the directory of a source specification contain the file, and let
  no specification before it in the list have a \<^verbatim>\<open>sourcePath\<close> that the path starts
  with. Then the key of the path is the name of its file without the extension, preceded
  by the prefix of that specification and the separator when the prefix is not empty. The
  key is the bare name too when the path starts with no \<^verbatim>\<open>sourcePath\<close> at all. The
  name is the last segment up to its last dot, or the whole segment when it has no dot.
\<close>

theorem mapKey_of_first_source_spec:
  "(\<forall>before item after.
       arr = before @ item # after
       \<and> list_all (\<lambda>j. \<not> startsWith p (sourcePath j)) before \<and> inRoot item p \<longrightarrow>
       mapKey p arr =
         (case prefix item of
            None \<Rightarrow> path_parse_name p
          | Some pre \<Rightarrow> if pre = [] then path_parse_name p
                        else pre @ path_sep @ path_parse_name p))
   \<and> (list_all (\<lambda>j. \<not> startsWith p (sourcePath j)) arr \<longrightarrow> mapKey p arr = path_parse_name p)
   \<and> (\<forall>d n e. p = d @ ''/'' @ n @ ''.'' @ e \<and> n \<noteq> [] \<and> CHR ''/'' \<notin> set (n @ e)
          \<and> CHR ''.'' \<notin> set e \<and> (n, e) \<noteq> (''.'', []) \<longrightarrow> path_parse_name p = n)
   \<and> (\<forall>d b. p = d @ ''/'' @ b \<and> b \<noteq> [] \<and> CHR ''/'' \<notin> set b \<and> CHR ''.'' \<notin> set b
          \<longrightarrow> path_parse_name p = b)"
proof (intro conjI allI impI)
  fix before item after
  assume a: "arr = before @ item # after
       \<and> list_all (\<lambda>j. \<not> startsWith p (sourcePath j)) before \<and> inRoot item p"
  then have "startsWith p (sourcePath item)" by (simp add: startsWith_root)
  with a have "find (\<lambda>j. startsWith p (sourcePath j)) arr = Some item"
    using find_first [of "\<lambda>j. startsWith p (sourcePath j)" before item after] by simp
  then show "mapKey p arr =
         (case prefix item of
            None \<Rightarrow> path_parse_name p
          | Some pre \<Rightarrow> if pre = [] then path_parse_name p
                        else pre @ path_sep @ path_parse_name p)"
    by (simp add: mapKey_def getImportPrefix_def Let_def split: option.splits)
next
  assume "list_all (\<lambda>j. \<not> startsWith p (sourcePath j)) arr"
  then have "find (\<lambda>j. startsWith p (sourcePath j)) arr = None" by (rule find_none)
  then show "mapKey p arr = path_parse_name p"
    by (simp add: mapKey_def getImportPrefix_def Let_def)
next
  fix d n e
  assume "p = d @ ''/'' @ n @ ''.'' @ e \<and> n \<noteq> [] \<and> CHR ''/'' \<notin> set (n @ e)
          \<and> CHR ''.'' \<notin> set e \<and> (n, e) \<noteq> (''.'', [])"
  then show "path_parse_name p = n" using parse_name_ext [of n e d] by simp
next
  fix d b
  assume "p = d @ ''/'' @ b \<and> b \<noteq> [] \<and> CHR ''/'' \<notin> set b \<and> CHR ''.'' \<notin> set b"
  then show "path_parse_name p = b" using parse_name_noext [of b d] by simp
qed

theorem mapKey_of_first_source_spec_witness:
  "[srcfoo_spec, src_spec] = [srcfoo_spec] @ src_spec # []
   \<and> list_all (\<lambda>j. \<not> startsWith ''/app/src/a/App.tsx'' (sourcePath j)) [srcfoo_spec]
   \<and> inRoot src_spec ''/app/src/a/App.tsx''
   \<and> ''/app/src/a/App.tsx'' = ''/app/src/a'' @ ''/'' @ ''App'' @ ''.'' @ ''tsx''
   \<and> path_parse_name ''/app/src/a/App.tsx'' = ''App''
   \<and> mapKey ''/app/src/a/App.tsx'' [srcfoo_spec, src_spec] = ''@s/App''
   \<and> list_all (\<lambda>j. \<not> startsWith ''/app/lib/README'' (sourcePath j)) [srcfoo_spec, src_spec]
   \<and> ''/app/lib/README'' = ''/app/lib'' @ ''/'' @ ''README''
   \<and> mapKey ''/app/lib/README'' [srcfoo_spec, src_spec] = ''README''"
proof -
  note c8 = mapKey_of_first_source_spec [of "[srcfoo_spec, src_spec]" "''/app/src/a/App.tsx''"]
  note c8' = mapKey_of_first_source_spec [of "[srcfoo_spec, src_spec]" "''/app/lib/README''"]
  have 1: "[srcfoo_spec, src_spec] = [srcfoo_spec] @ src_spec # []" by simp
  have 2: "list_all (\<lambda>j. \<not> startsWith ''/app/src/a/App.tsx'' (sourcePath j)) [srcfoo_spec]"
    by (simp add: srcfoo_spec_def startsWith_def)
  have 3: "inRoot src_spec ''/app/src/a/App.tsx''"
    by (simp add: inRoot_def src_spec_def startsWith_def)
  have 4: "''/app/src/a/App.tsx'' = ''/app/src/a'' @ ''/'' @ ''App'' @ ''.'' @ ''tsx''" by simp
  have n: "path_parse_name ''/app/src/a/App.tsx'' = ''App''"
    using c8 [THEN conjunct2, THEN conjunct2, THEN conjunct1, rule_format,
              of "''/app/src/a''" "''App''" "''tsx''"]
    by simp
  have "mapKey ''/app/src/a/App.tsx'' [srcfoo_spec, src_spec] =
         (case prefix src_spec of
            None \<Rightarrow> path_parse_name ''/app/src/a/App.tsx''
          | Some pre \<Rightarrow> if pre = [] then path_parse_name ''/app/src/a/App.tsx''
                        else pre @ path_sep @ path_parse_name ''/app/src/a/App.tsx'')"
    using c8 [THEN conjunct1, rule_format, of "[srcfoo_spec]" src_spec "[]"] 1 2 3 by blast
  then have k: "mapKey ''/app/src/a/App.tsx'' [srcfoo_spec, src_spec] = ''@s/App''"
    by (simp add: n src_spec_def path_sep_def)
  have 5: "list_all (\<lambda>j. \<not> startsWith ''/app/lib/README'' (sourcePath j)) [srcfoo_spec, src_spec]"
    by (simp add: srcfoo_spec_def src_spec_def startsWith_def)
  have 6: "''/app/lib/README'' = ''/app/lib'' @ ''/'' @ ''README''" by simp
  have n': "path_parse_name ''/app/lib/README'' = ''README''"
    using c8' [THEN conjunct2, THEN conjunct2, THEN conjunct2, rule_format,
               of "''/app/lib''" "''README''"]
    by simp
  have k': "mapKey ''/app/lib/README'' [srcfoo_spec, src_spec] = ''README''"
    using c8' [THEN conjunct2, THEN conjunct1] 5 n' by simp
  from 1 2 3 4 n k 5 6 k' show ?thesis by (intro conjI)
qed

text \<open>
  C8, as stated, fails in two ways. The specification whose prefix is used is the first
  one whose \<^verbatim>\<open>sourcePath\<close> the path starts with as a string: a file of the directory
  \<^verbatim>\<open>/app/srcfoo\<close>, which is no file of \<^verbatim>\<open>/app/src\<close>, gets the prefix of \<^verbatim>\<open>/app/src\<close>
  when that specification comes first. And a prefix that is configured as the empty
  string gives the bare name, without the separator.
\<close>

theorem mapKey_counterexample:
  "inRoot srcfoo_spec ''/app/srcfoo/x.ts''
   \<and> \<not> inRoot src_spec ''/app/srcfoo/x.ts''
   \<and> prefix srcfoo_spec = Some ''@foo''
   \<and> path_parse_name ''/app/srcfoo/x.ts'' = ''x''
   \<and> mapKey ''/app/srcfoo/x.ts'' [src_spec, srcfoo_spec] = ''@s/x''
   \<and> mapKey ''/app/srcfoo/x.ts'' [src_spec, srcfoo_spec] \<noteq> ''@foo'' @ path_sep @ ''x''
   \<and> inRoot empty_prefix_spec ''/app/src/x.ts''
   \<and> prefix empty_prefix_spec = Some ''''
   \<and> path_parse_name ''/app/src/x.ts'' = ''x''
   \<and> mapKey ''/app/src/x.ts'' [empty_prefix_spec] = ''x''
   \<and> mapKey ''/app/src/x.ts'' [empty_prefix_spec] \<noteq> '''' @ path_sep @ ''x''"
  by (simp add: inRoot_def src_spec_def srcfoo_spec_def empty_prefix_spec_def startsWith_def
                mapKey_def getImportPrefix_def path_parse_name_def path_base_def path_sep_def
                Let_def)

subsection \<open>The written file\<close>

lemma toLocaleLowerCase_other: "toLocaleLowerCase OtherLocale s = lower_units s"
  by (induction s)
     (simp_all add: toLocaleLowerCase_def toLocaleLowerCase_char_def lower_units_def
                    code_units_def toLowerCase_def)

lemma same_lower_other: "same_lower OtherLocale names"
  by (simp add: same_lower_def toLocaleLowerCase_other list_all_iff)

lemma compareNames_same:
  "toLocaleLowerCase loc a = lower_units a \<Longrightarrow>
     compareNames loc a b =
       (if lower_units a > lower_units b then 1
        else if lower_units a < lower_units b then - 1 else 0)"
  by (simp add: compareNames_def lower_units_def Let_def)

lemma insort_cmp_same:
  "toLocaleLowerCase loc x = lower_units x \<Longrightarrow>
     insort_cmp (compareNames loc) x ys = insort_key lower_units x ys"
  by (induction ys) (auto simp: compareNames_same)

lemma foldr_insort_same:
  "same_lower loc xs \<Longrightarrow>
     foldr (insort_cmp (compareNames loc)) xs [] = sort_key lower_units xs"
  by (induction xs) (simp_all add: same_lower_def insort_cmp_same sort_key_def)

lemma consistent_same: "same_lower loc xs \<Longrightarrow> consistent (compareNames loc) xs"
proof -
  assume "same_lower loc xs"
  then have eq: "\<And>a b. a \<in> set xs \<Longrightarrow>
      compareNames loc a b =
        (if lower_units a > lower_units b then 1
         else if lower_units a < lower_units b then - 1 else 0)"
    by (simp add: same_lower_def list_all_iff compareNames_same)
  show ?thesis
    unfolding consistent_def list_all_iff
    by (intro ballI conjI impI) (auto simp: eq split: if_splits)
qed

lemma compareNames_refl:
  "compareNames loc a a = 0 \<longleftrightarrow> toLocaleLowerCase loc a = lower_units a"
  by (auto simp: compareNames_def lower_units_def Let_def)

text \<open>
  The comparator is consistent on the keys exactly when the two ways of lower-casing
  agree on each of them: a key that they lower-case differently is not equal to itself.
\<close>

lemma consistent_iff_same_lower:
  "consistent (compareNames loc) xs \<longleftrightarrow> same_lower loc xs"
proof
  assume "consistent (compareNames loc) xs"
  then have "\<forall>a \<in> set xs. compareNames loc a a = 0"
    by (simp add: consistent_def list_all_iff)
  then show "same_lower loc xs"
    by (simp add: same_lower_def list_all_iff compareNames_refl)
next
  assume "same_lower loc xs"
  then show "consistent (compareNames loc) xs" by (rule consistent_same)
qed

lemma js_sort_same:
  "same_lower loc xs \<Longrightarrow> js_sort (compareNames loc) xs = Some (sort_key lower_units xs)"
  by (simp add: js_sort_def consistent_same foldr_insort_same)

lemma importNames_same:
  "same_lower loc (map fst fileMap) \<Longrightarrow>
     importNames loc fileMap = Some (sort_key lower_units (map fst fileMap))"
  by (simp add: importNames_def js_sort_same)

text \<open>
  Whatever the comparator, the sorted names are the keys of the file map, each as often as
  it was there; and on a comparator that is an order the sort of short arrays gives what
  insertion gives.
\<close>

lemma mset_insort_cmp: "mset (insort_cmp cmp x ys) = add_mset x (mset ys)"
  by (induction ys) auto

lemma mset_foldr_insort_cmp: "mset (foldr (insort_cmp cmp) xs []) = mset xs"
  by (induction xs) (simp_all add: mset_insort_cmp)

lemma mset_binaryInsert: "mset (binaryInsert cmp workArray pivot) = add_mset pivot (mset workArray)"
proof -
  have "mset (take n workArray @ pivot # drop n workArray) = add_mset pivot (mset workArray)"
    for n
    using append_take_drop_id [of n workArray]
    by (metis mset.simps(2) mset_append union_mset_add_mset_right)
  then show ?thesis by (simp add: binaryInsert_def Let_def)
qed

lemma mset_foldl_binaryInsert:
  "mset (foldl (binaryInsert cmp) pre rest) = mset pre + mset rest"
  by (induction rest arbitrary: pre) (simp_all add: mset_binaryInsert)

lemma mset_countAndMakeRun:
  "countAndMakeRun cmp xs = (pre, rest) \<Longrightarrow> mset pre + mset rest = mset xs"
proof (induction cmp xs rule: countAndMakeRun.induct)
  case (1 cmp elementHigh elementLow r)
  let ?xs = "elementHigh # elementLow # r"
  let ?n = "2 + continueRun cmp (cmp elementLow elementHigh < 0) elementLow r"
  from 1 have "mset pre = mset (take ?n ?xs)" "rest = drop ?n ?xs"
    by (auto simp: Let_def split: if_splits)
  then have "mset pre + mset rest = mset (take ?n ?xs @ drop ?n ?xs)"
    by (simp only: mset_append)
  then show ?case by (simp only: append_take_drop_id)
qed auto

lemma mset_timSortShort: "mset (timSortShort cmp xs) = mset xs"
proof -
  obtain pre rest where r: "countAndMakeRun cmp xs = (pre, rest)"
    by (cases "countAndMakeRun cmp xs")
  then show ?thesis
    using mset_countAndMakeRun [OF r]
    by (simp add: timSortShort_def mset_foldl_binaryInsert)
qed

lemma mset_importNames:
  "importNames loc fileMap = Some names \<Longrightarrow> mset names = mset (map fst fileMap)"
  by (auto simp: importNames_def js_sort_def mset_foldr_insort_cmp mset_timSortShort
           split: if_splits)

lemma timSortShort_examples:
  "timSortShort (compareNames OtherLocale) [''Zeta'', ''alpha'', ''Beta'']
     = [''alpha'', ''Beta'', ''Zeta'']"
  "timSortShort (compareNames OtherLocale) [''c'', ''B'', ''a'', ''d'', ''b'', ''A'']
     = [''a'', ''A'', ''B'', ''b'', ''c'', ''d'']"
  "foldr (insort_cmp (compareNames OtherLocale)) [''c'', ''B'', ''a'', ''d'', ''b'', ''A''] []
     = [''a'', ''A'', ''B'', ''b'', ''c'', ''d'']"
  by code_simp+

lemma pathLine_start:
  "pathLine dir fileMap comma name = Inr l \<Longrightarrow> startsWith l (lineStart name)"
  by (auto simp: pathLine_def startsWith_def lineStart_def
           split: property.splits if_splits list.splits)

lemma pathLines_start:
  "pathLines dir fileMap names = Inr ls \<Longrightarrow>
     list_all2 (\<lambda>name l. startsWith l (lineStart name)) names ls"
proof (induction names arbitrary: ls)
  case Nil
  then show ?case by simp
next
  case (Cons name names)
  then show ?case
    by (auto split: sum.splits dest: pathLine_start)
qed

lemma pathLine_ok:
  "obj_get fileMap name = Some vs \<Longrightarrow> vs \<noteq> [] \<Longrightarrow>
     \<exists>l. pathLine dir fileMap comma name = Inr l"
  by (cases vs) (auto simp: pathLine_def obj_read_def)

lemma pathLines_ok:
  "nonempty_seqs fileMap \<Longrightarrow> set names \<subseteq> fst ` set fileMap \<Longrightarrow>
     \<exists>ls. pathLines dir fileMap names = Inr ls"
proof (induction names)
  case Nil
  then show ?case by simp
next
  case (Cons name names)
  from Cons.prems(2) have "name \<in> fst ` set fileMap" by simp
  then obtain vs where g: "obj_get fileMap name = Some vs"
    by (metis obj_get_def map_of_eq_None_iff not_Some_eq)
  with Cons.prems(1) have "vs \<noteq> []" by (rule nonempty_seqs_get)
  with g obtain l where l: "pathLine dir fileMap (if names = [] then [] else '','') name = Inr l"
    using pathLine_ok by blast
  from Cons obtain ls where "pathLines dir fileMap names = Inr ls" by auto
  with l show ?case by simp
qed

lemma write_ok:
  "nonempty_seqs fileMap \<Longrightarrow> same_lower loc (map fst fileMap) \<Longrightarrow>
     \<exists>contents. writeTsConfigPathsJSON loc dir fileMap = Inr contents"
  using pathLines_ok [of fileMap "sort_key lower_units (map fst fileMap)" dir]
  by (auto simp: writeTsConfigPathsJSON_def importNames_same)

lemma split_sep_simps:
  "split_sep [] = [[]]"
  "split_sep (c # cs) =
     (if c = CHR ''/'' then [] # split_sep cs
      else (c # hd (split_sep cs)) # tl (split_sep cs))"
  by (simp_all add: split_sep_def)

text \<open>
  Where the two ways of lower-casing agree on the keys, the comparator is consistent, and
  the keys of the written file are the keys of the file map sorted in ascending order of
  their lower-case forms, whatever the order of the map: the names are sorted, they are
  the keys of the map, a map without empty sequences is written, and the lines of the
  \<^verbatim>\<open>paths\<close> section name the sorted keys one after the other.
\<close>

lemma persisted_keys_sorted:
  assumes "same_lower loc (map fst fileMap)"
  shows \<open>\<exists>names. importNames loc fileMap = Some names
           \<and> sorted (map lower_units names)
           \<and> mset names = mset (map fst fileMap)
           \<and> (nonempty_seqs fileMap \<longrightarrow>
                (\<exists>contents. writeTsConfigPathsJSON loc dir fileMap = Inr contents))
           \<and> (\<forall>contents. writeTsConfigPathsJSON loc dir fileMap = Inr contents \<longrightarrow>
                (\<exists>paths. contents = join [CHR 0x0A]
                     ([''{'', ''  "compilerOptions": {'', ''    "paths": {''] @ paths
                      @ [''    }'', ''  }'', ''}'', ''''])
                   \<and> list_all2 (\<lambda>name l. startsWith l (lineStart name)) names paths))\<close>
proof -
  let ?names = "sort_key lower_units (map fst fileMap)"
  have 1: "importNames loc fileMap = Some ?names"
    using assms by (rule importNames_same)
  have 2: "sorted (map lower_units ?names)"
    by simp
  have 3: "mset ?names = mset (map fst fileMap)"
    by simp
  have 4: "nonempty_seqs fileMap \<longrightarrow>
             (\<exists>contents. writeTsConfigPathsJSON loc dir fileMap = Inr contents)"
    using assms by (simp add: write_ok)
  have 5: \<open>\<forall>contents. writeTsConfigPathsJSON loc dir fileMap = Inr contents \<longrightarrow>
                (\<exists>paths. contents = join [CHR 0x0A]
                     ([''{'', ''  "compilerOptions": {'', ''    "paths": {''] @ paths
                      @ [''    }'', ''  }'', ''}'', ''''])
                   \<and> list_all2 (\<lambda>name l. startsWith l (lineStart name)) ?names paths)\<close>
    by (auto simp: writeTsConfigPathsJSON_def 1 split: sum.splits dest: pathLines_start)
  from 1 2 3 4 5 show ?thesis by blast
qed

text \<open>
  The example of the three keys \<^verbatim>\<open>Zeta\<close>, \<^verbatim>\<open>alpha\<close>, \<^verbatim>\<open>Beta\<close>, which are written in
  the order \<^verbatim>\<open>alpha\<close>, \<^verbatim>\<open>Beta\<close>, \<^verbatim>\<open>Zeta\<close> in every locale.
\<close>

lemma zeta_alpha_beta_eq:
  "zeta_alpha_beta =
     [(''Zeta'', [''/app/src/Zeta.ts'']), (''alpha'', [''/app/src/alpha.ts'']),
      (''Beta'', [''/app/src/Beta.ts''])]"
  by (simp add: zeta_alpha_beta_def fst_add mapKey_example obj_read_def prototype_names_def
                obj_get_def obj_set_def isArrayIndex_def isDigit_def)

lemma same_lower_zeta_alpha_beta: "same_lower loc (map fst zeta_alpha_beta)"
proof (cases loc)
  case Turkic
  have "same_lower Turkic (map fst zeta_alpha_beta)"
    unfolding zeta_alpha_beta_eq by code_simp
  with Turkic show ?thesis by simp
next
  case Lithuanian
  have "same_lower Lithuanian (map fst zeta_alpha_beta)"
    unfolding zeta_alpha_beta_eq by code_simp
  with Lithuanian show ?thesis by simp
next
  case OtherLocale
  then show ?thesis by (simp add: same_lower_other)
qed

lemma sort_zeta_alpha_beta:
  "sort_key lower_units (map fst zeta_alpha_beta) = [''alpha'', ''Beta'', ''Zeta'']"
  unfolding zeta_alpha_beta_eq by code_simp

lemma importNames_zeta_alpha_beta:
  "importNames loc zeta_alpha_beta = Some [''alpha'', ''Beta'', ''Zeta'']"
  by (simp add: importNames_same same_lower_zeta_alpha_beta sort_zeta_alpha_beta)

lemma pathLines_zeta_alpha_beta:
  \<open>pathLines ''/app'' zeta_alpha_beta [''alpha'', ''Beta'', ''Zeta''] =
     Inr [''      "alpha": ["./src/alpha.ts"],'',
          ''      "Beta": ["./src/Beta.ts"],'',
          ''      "Zeta": ["./src/Zeta.ts"]'']\<close>
  unfolding zeta_alpha_beta_eq by code_simp

lemma write_zeta_alpha_beta:
  \<open>writeTsConfigPathsJSON loc ''/app'' zeta_alpha_beta =
     Inr (join [CHR 0x0A]
       [''{'',
        ''  "compilerOptions": {'',
        ''    "paths": {'',
        ''      "alpha": ["./src/alpha.ts"],'',
        ''      "Beta": ["./src/Beta.ts"],'',
        ''      "Zeta": ["./src/Zeta.ts"]'',
        ''    }'',
        ''  }'',
        ''}'',
        ''''])\<close>
  by (simp only: writeTsConfigPathsJSON_def importNames_zeta_alpha_beta option.case
                 pathLines_zeta_alpha_beta sum.case append.simps)

lemma j_I_k_eq:
  "j_I_k =
     [(''j'', [''/app/src/j.ts'']), (''I'', [''/app/src/I.ts'']), (''k'', [''/app/src/k.ts''])]"
  by (simp add: j_I_k_def fst_add mapKey_example obj_read_def prototype_names_def
                obj_get_def obj_set_def isArrayIndex_def isDigit_def)

text \<open>
  In a Turkish locale the comparator is not consistent on these keys: it finds \<^verbatim>\<open>I\<close>
  greater than itself, greater than \<^verbatim>\<open>j\<close> and less than \<^verbatim>\<open>j\<close>.
\<close>

lemma compareNames_turkic:
  "compareNames Turkic ''I'' ''I'' = 1"
  "compareNames Turkic ''I'' ''j'' = 1"
  "compareNames Turkic ''j'' ''I'' = 1"
  "compareNames Turkic ''k'' ''I'' = 1"
  "\<not> consistent (compareNames Turkic) [''j'', ''I'', ''k'']"
  by code_simp+

text \<open>
  C7. On a host whose locale is Turkish the keys are not written in ascending
  case-insensitive order. After the files \<^verbatim>\<open>j\<close>, \<^verbatim>\<open>I\<close> and \<^verbatim>\<open>k\<close> were added in this
  order, the comparator meets \<^verbatim>\<open>I\<close> as its first argument only, lower-cases it to the
  dotless i, which comes after every letter of ASCII, and answers that the array is in
  order already: the file has the keys in the order \<^verbatim>\<open>j\<close>, \<^verbatim>\<open>I\<close>, \<^verbatim>\<open>k\<close>. This is not
  the ascending order of the lower-case forms that \<^verbatim>\<open>toLowerCase\<close> gives (\<^verbatim>\<open>I\<close>, \<^verbatim>\<open>j\<close>,
  \<^verbatim>\<open>k\<close>, which is what the same registry is written as in a locale without rules of its
  own), nor of the ones that \<^verbatim>\<open>toLocaleLowerCase\<close> gives (\<^verbatim>\<open>j\<close>, \<^verbatim>\<open>k\<close>, \<^verbatim>\<open>I\<close>).
\<close>

theorem keys_unsorted_in_turkish_locale:
  \<open>map fst j_I_k = [''j'', ''I'', ''k'']
   \<and> importNames Turkic j_I_k = Some [''j'', ''I'', ''k'']
   \<and> writeTsConfigPathsJSON Turkic ''/app'' j_I_k =
       Inr (join [CHR 0x0A]
         [''{'',
          ''  "compilerOptions": {'',
          ''    "paths": {'',
          ''      "j": ["./src/j.ts"],'',
          ''      "I": ["./src/I.ts"],'',
          ''      "k": ["./src/k.ts"]'',
          ''    }'',
          ''  }'',
          ''}'',
          ''''])
   \<and> \<not> sorted (map lower_units [''j'', ''I'', ''k''])
   \<and> \<not> sorted (map (toLocaleLowerCase Turkic) [''j'', ''I'', ''k''])
   \<and> importNames OtherLocale j_I_k = Some [''I'', ''j'', ''k'']\<close>
  unfolding j_I_k_eq by code_simp

subsection \<open>The alias projection\<close>

lemma logMultipleModuleWarnings_empty:
  "logMultipleModuleWarnings dir [] = Inl RangeError"
  by (simp add: logMultipleModuleWarnings_def getMaxLengthNoAnsi_def repeat_def Let_def)

lemma createViteAliasMap_no_duplicates:
  "list_all (\<lambda>e. length (snd e) \<le> 1) fileMap \<Longrightarrow> createViteAliasMap dir fileMap = Inl RangeError"
proof -
  assume a: "list_all (\<lambda>e. length (snd e) \<le> 1) fileMap"
  have "filter (\<lambda>(find, replacements). length replacements > 1) fileMap = []"
    using a by (induction fileMap) auto
  then show ?thesis
    by (simp add: createViteAliasMap_def logMultipleModuleWarnings_empty)
qed


lemma removeAnsiChars_no_escape:
  "CHR 0x1B \<notin> set a \<Longrightarrow> removeAnsiChars (a @ b) = a @ removeAnsiChars b"
  by (induction a) auto

lemma digits_upto_digits: "set (digits_upto f n) \<subseteq> set ''0123456789''"
proof (induction f n rule: digits_upto.induct)
  case (1 n)
  then show ?case by simp
next
  case (2 f n)
  have d: "digit_char k \<in> set ''0123456789''" if "k < 10" for k
    using that unfolding digit_char_def by (intro nth_mem) simp
  show ?case
  proof (cases "n < 10")
    case True
    then show ?thesis using d [of n] by simp
  next
    case False
    then show ?thesis using 2 d [of "n mod 10"] by simp
  qed
qed

lemma nat_to_string_no_escape: "CHR 0x1B \<notin> set (nat_to_string n)"
  using digits_upto_digits [of "Suc n" n] by (auto simp: nat_to_string_def)

lemma getMaxLengthNoAnsi_ge:
  "l \<in> set textArr \<Longrightarrow> length (removeAnsiChars l) \<le> getMaxLengthNoAnsi textArr"
proof -
  have mono: "m \<le> foldl (\<lambda>len line. max len (length (removeAnsiChars line))) m xs" for m xs
    by (induction xs arbitrary: m) (auto intro: order_trans [OF max.cobounded1])
  have "l \<in> set xs \<Longrightarrow>
          length (removeAnsiChars l) \<le> foldl (\<lambda>len line. max len (length (removeAnsiChars line))) m xs"
    for m xs
  proof (induction xs arbitrary: m)
    case Nil
    then show ?case by simp
  next
    case (Cons x xs)
    then show ?case
      using mono [of "max m (length (removeAnsiChars x))" xs] by auto
  qed
  then show "l \<in> set textArr \<Longrightarrow> length (removeAnsiChars l) \<le> getMaxLengthNoAnsi textArr"
    by (simp add: getMaxLengthNoAnsi_def)
qed

lemma duplicateLines_head_long:
  "\<exists>l ls. duplicateLines dir d = l # ls \<and> 32 \<le> length (removeAnsiChars l)"
proof -
  obtain name ps where d: "d = (name, ps)" by (cases d)
  let ?a = "nat_to_string (length ps) @ '' paths are associated with the module ''"
  have esc: "CHR 0x1B \<notin> set ?a" using nat_to_string_no_escape by simp
  have "removeAnsiChars (?a @ name @ '':'') = ?a @ removeAnsiChars (name @ '':'')"
    using esc by (rule removeAnsiChars_no_escape)
  then have "32 \<le> length (removeAnsiChars (?a @ name @ '':''))" by simp
  then show ?thesis by (simp add: d duplicateLines_def chalk_def)
qed

lemma logMultipleModuleWarnings_nonempty:
  "duplicates \<noteq> [] \<Longrightarrow> \<exists>logged. logMultipleModuleWarnings dir duplicates = Inr logged"
proof -
  assume "duplicates \<noteq> []"
  then obtain d ds where dd: "duplicates = d # ds" by (cases duplicates) auto
  obtain l ls where l: "duplicateLines dir d = l # ls" "32 \<le> length (removeAnsiChars l)"
    using duplicateLines_head_long by blast
  let ?textArr = "concat (map (duplicateLines dir) duplicates)"
  have "l \<in> set ?textArr" using dd l(1) by simp
  then have "length (removeAnsiChars l) \<le> getMaxLengthNoAnsi ?textArr"
    by (rule getMaxLengthNoAnsi_ge)
  with l(2) have m: "32 \<le> getMaxLengthNoAnsi ?textArr" by simp
  then show ?thesis
    by (simp add: logMultipleModuleWarnings_def repeat_def frameText_def Let_def)
qed

lemma createViteAliasMap_duplicates:
  "filter (\<lambda>(find, replacements). length replacements > 1) fileMap \<noteq> [] \<Longrightarrow>
     \<exists>logged. createViteAliasMap dir fileMap =
       Inr (map (\<lambda>(find, replacements).
                   \<lparr>find_alias = find,
                    replacement = (case replacements of [] \<Rightarrow> None | r # _ \<Rightarrow> Some r)\<rparr>)
                fileMap, logged)"
  using logMultipleModuleWarnings_nonempty
    [of "filter (\<lambda>(find, replacements). length replacements > 1) fileMap" dir]
  by (auto simp: createViteAliasMap_def Let_def)

text \<open>
  C2. For a registry in which no key has two paths the projection returns no alias list:
  \<^verbatim>\<open>logMultipleModuleWarnings\<close> is called with no duplicates, the longest line has
  length 0, the padding of the title is negative and \<^verbatim>\<open>repeat\<close> throws a RangeError.
\<close>

theorem createViteAliasMap_throws_without_duplicates:
  "createViteAliasMap ''/app'' [(''App'', [''/app/src/App.tsx''])] = Inl RangeError"
  by (simp add: createViteAliasMap_def logMultipleModuleWarnings_empty)

subsection \<open>Reading the written file back\<close>

lemmas json_eval =
  JSON_parse_def step_after_def step_value_def step_string_def step_escape_def
  step_unicode_def step_number_def step_literal_def num_next_def num_complete_def isExp_def
  isWs_def isDigit_def escapes_def hex_digits_def hex_value_def obj_set_def obj_get_def
  isArrayIndex_def decimal_value_def digit_value_def

lemmas read_eval =
  tsConfigPathsToFileMap_def get_prop_def entries_def resolvePaths_def

lemma quoted_registry_eq: \<open>quoted_registry = [(''a"b'', [''/app/src/a"b.ts''])]\<close>
  by (simp add: quoted_registry_def fst_add mapKey_def getImportPrefix_def example_specs_def
                startsWith_def path_parse_name_def path_base_def Let_def obj_read_def
                prototype_names_def obj_get_def obj_set_def isArrayIndex_def isDigit_def)

text \<open>
  C1. The writer puts the key and the paths between double quotes as they are. For the
  registry of one file whose name has a double quote in it the text written is not JSON,
  and reading it back throws a SyntaxError instead of giving the registry.
\<close>

theorem round_trip_fails_on_quote:
  \<open>writeTsConfigPathsJSON loc ''/app'' quoted_registry =
     Inr (join [CHR 0x0A]
       [''{'',
        ''  "compilerOptions": {'',
        ''    "paths": {'',
        ''      "a"b": ["./src/a"b.ts"]'',
        ''    }'',
        ''  }'',
        ''}'',
        ''''])
   \<and> tsConfigPathsToFileMap ''/app'' (join [CHR 0x0A]
       [''{'',
        ''  "compilerOptions": {'',
        ''    "paths": {'',
        ''      "a"b": ["./src/a"b.ts"]'',
        ''    }'',
        ''  }'',
        ''}'',
        '''']) = Inl (Thrown SyntaxError)\<close>
proof (rule conjI)
  let ?written = \<open>join [CHR 0x0A]
       [''{'',
        ''  "compilerOptions": {'',
        ''    "paths": {'',
        ''      "a"b": ["./src/a"b.ts"]'',
        ''    }'',
        ''  }'',
        ''}'',
        '''']\<close>
  have t: "writeTsConfigPathsJSON Turkic ''/app'' quoted_registry = Inr ?written"
    unfolding quoted_registry_eq by code_simp
  have l: "writeTsConfigPathsJSON Lithuanian ''/app'' quoted_registry = Inr ?written"
    unfolding quoted_registry_eq by code_simp
  have e: "writeTsConfigPathsJSON OtherLocale ''/app'' quoted_registry = Inr ?written"
    unfolding quoted_registry_eq by code_simp
  show "writeTsConfigPathsJSON loc ''/app'' quoted_registry = Inr ?written"
    by (cases loc) (simp_all only: t l e)
  show "tsConfigPathsToFileMap ''/app'' ?written = Inl (Thrown SyntaxError)"
    by (simp add: json_eval read_eval)
qed

subsection \<open>The round trip for names that need no escaping\<close>

lemma join_sep_last: "join s (xs @ [[]]) = concat (map (\<lambda>l. l @ s) xs)"
  by (induction xs rule: induct_list012) auto

lemma join_unlines: "join [CHR 0x0A] (xs @ [[]]) = unlines xs"
  by (simp add: join_sep_last unlines_def)

lemma run_append:
  "run s (a @ b) = (case run s a of Inl e \<Rightarrow> Inl e | Inr s' \<Rightarrow> run s' b)"
  by (induction a arbitrary: s) (auto split: sum.splits)

lemma run_append_Inr: "run s a = Inr s' \<Longrightarrow> run s (a @ b) = run s' b"
  by (simp add: run_append)

lemma run_string:
  "json_safe s \<Longrightarrow> run (MStr r acc, st) s = Inr (MStr r (acc @ s), st)"
  by (induction s arbitrary: acc) (auto simp: json_safe_def step_string_def)

lemma run_quoted_key:
  \<open>json_safe s \<Longrightarrow>
     run (MStr Key [], FObj ms k # st) (s @ [CHR 0x22]) = Inr (MColon, FObj ms s # st)\<close>
  by (simp add: run_append run_string step_string_def)

lemma run_quoted_val:
  \<open>json_safe s \<Longrightarrow>
     run (MStr Val [], st) (s @ [CHR 0x22]) = Inr (complete (JString s) st)\<close>
  by (simp add: run_append run_string step_string_def)

text \<open>The elements of an array: the quoted paths, separated by a comma and a space.\<close>

lemma quotedRelative_eq:
  \<open>quotedRelative dir v = CHR 0x22 # (''./'' @ path_relative dir v) @ [CHR 0x22]\<close>
  by (simp add: quotedRelative_def path_sep_def)

lemma run_element:
  assumes "json_safe (stored dir v)"
  shows "run (MValue, FArr xs # st) (quotedRelative dir v)
           = Inr (MAfter, FArr (xs @ [JString (stored dir v)]) # st)"
    and "run (MArrStart, FArr xs # st) (quotedRelative dir v)
           = Inr (MAfter, FArr (xs @ [JString (stored dir v)]) # st)"
  using assms run_quoted_val [of "stored dir v" "FArr xs # st"]
  by (simp_all add: quotedRelative_eq stored_def step_value_def isWs_def)

lemma run_more_elements:
  assumes "list_all (\<lambda>v. json_safe (stored dir v)) vs"
  shows "run (MAfter, FArr xs # st) (concat (map (\<lambda>v. '', '' @ quotedRelative dir v) vs))
           = Inr (MAfter, FArr (xs @ map (\<lambda>v. JString (stored dir v)) vs) # st)"
  using assms
proof (induction vs arbitrary: xs)
  case Nil
  then show ?case by simp
next
  case (Cons v vs)
  have 1: "run (MAfter, FArr xs # st) ('', '' @ quotedRelative dir v)
             = Inr (MAfter, FArr (xs @ [JString (stored dir v)]) # st)"
    using Cons.prems run_element(1) [of dir v xs st]
    by (simp add: step_after_def isWs_def step_value_def)
  show ?case
    using Cons.prems Cons.IH [of "xs @ [JString (stored dir v)]"] run_append_Inr [OF 1]
    by simp
qed

lemma join_comma:
  "join s (x # xs) = x @ concat (map (\<lambda>v. s @ v) xs)"
  by (induction xs arbitrary: x) auto

lemma run_elements:
  assumes "vs \<noteq> []" "list_all (\<lambda>v. json_safe (stored dir v)) vs"
  shows "run (MArrStart, FArr [] # st) (join '', '' (map (quotedRelative dir) vs))
           = Inr (MAfter, FArr (map (\<lambda>v. JString (stored dir v)) vs) # st)"
proof -
  obtain v vs' where vs: "vs = v # vs'" using assms(1) by (cases vs) auto
  have 1: "run (MArrStart, FArr [] # st) (quotedRelative dir v)
             = Inr (MAfter, FArr [JString (stored dir v)] # st)"
    using assms(2) run_element(2) [of dir v "[]" st] by (simp add: vs)
  have 2: "run (MAfter, FArr [JString (stored dir v)] # st)
             (concat (map (\<lambda>v. '', '' @ quotedRelative dir v) vs'))
           = Inr (MAfter, FArr ([JString (stored dir v)] @ map (\<lambda>v. JString (stored dir v)) vs') # st)"
    using assms(2) by (intro run_more_elements) (simp add: vs)
  show ?thesis
    using run_append_Inr [OF 1] 2
    by (simp add: vs join_comma comp_def)
qed

lemma run_then: "run s a = Inr s' \<Longrightarrow> run s' b = r \<Longrightarrow> run s (a @ b) = r"
  by (simp add: run_append)

lemma pathLine_eq:
  \<open>obj_get fileMap name = Some vs \<Longrightarrow> vs \<noteq> [] \<Longrightarrow>
     pathLine dir fileMap comma name
       = Inr (''      "'' @ name @ [CHR 0x22] @ '': ['' @ join '', '' (map (quotedRelative dir) vs)
              @ '']'' @ comma)\<close>
  by (cases vs; cases "tl vs") (auto simp: pathLine_def obj_read_def)

lemma run_line:
  assumes safe: "safe_entry dir fileMap name"
    and m: "m = MObjStart \<or> m = MKey"
    and comma: "comma = [] \<or> comma = '',''"
  shows "\<exists>l. pathLine dir fileMap comma name = Inr l \<and>
           run (m, FObj ms k0 # st) (l @ [CHR 0x0A])
             = Inr (if comma = [] then MAfter else MKey,
                    FObj (obj_set name (memberValue dir fileMap name) ms) name # st)"
proof -
  from safe obtain vs where g: "obj_get fileMap name = Some vs" and ne: "vs \<noteq> []"
    and sv: "list_all (\<lambda>v. json_safe (stored dir v)) vs" and sn: "json_safe name"
    by (auto simp: safe_entry_def split: option.splits)
  let ?elems = "map (\<lambda>v. JString (stored dir v)) vs"
  let ?l = \<open>''      "'' @ name @ [CHR 0x22] @ '': ['' @ join '', '' (map (quotedRelative dir) vs)
              @ '']'' @ comma\<close>
  have l: "pathLine dir fileMap comma name = Inr ?l"
    using g ne by (rule pathLine_eq)
  have 1: \<open>run (m, FObj ms k0 # st) ''      "'' = Inr (MStr Key [], FObj ms k0 # st)\<close>
    using m by (auto simp: isWs_def)
  have 2: "run (MStr Key [], FObj ms k0 # st) (name @ [CHR 0x22])
             = Inr (MColon, FObj ms name # st)"
    using sn by (rule run_quoted_key)
  have 3: "run (MColon, FObj ms name # st) '': [''
             = Inr (MArrStart, FArr [] # FObj ms name # st)"
    by (simp add: isWs_def step_value_def)
  have 4: "run (MArrStart, FArr [] # FObj ms name # st)
             (join '', '' (map (quotedRelative dir) vs))
           = Inr (MAfter, FArr ?elems # FObj ms name # st)"
    using ne sv by (rule run_elements)
  have 5: "run (MAfter, FArr ?elems # FObj ms name # st) ('']'' @ comma @ [CHR 0x0A])
             = Inr (if comma = [] then MAfter else MKey,
                    FObj (obj_set name (JArray ?elems) ms) name # st)"
    using comma by (auto simp: step_after_def isWs_def)
  have \<open>run (m, FObj ms k0 # st)
          (''      "'' @ (name @ [CHR 0x22]) @ '': ['' @ join '', '' (map (quotedRelative dir) vs)
              @ ('']'' @ comma @ [CHR 0x0A]))
        = Inr (if comma = [] then MAfter else MKey,
               FObj (obj_set name (JArray ?elems) ms) name # st)\<close>
    by (intro run_then [OF 1] run_then [OF 2] run_then [OF 3] run_then [OF 4] 5)
  then have "run (m, FObj ms k0 # st) (?l @ [CHR 0x0A])
        = Inr (if comma = [] then MAfter else MKey,
               FObj (obj_set name (memberValue dir fileMap name) ms) name # st)"
    by (simp add: memberValue_def g)
  with l show ?thesis by blast
qed

lemma run_lines:
  assumes "list_all (safe_entry dir fileMap) names" and "names \<noteq> []"
    and "m = MObjStart \<or> m = MKey"
  shows "\<exists>ls. pathLines dir fileMap names = Inr ls \<and>
           run (m, FObj ms k0 # st) (unlines ls)
             = Inr (MAfter, FObj (parsedMembers dir fileMap names ms) (last names) # st)"
  using assms
proof (induction names arbitrary: m ms k0)
  case Nil
  then show ?case by simp
next
  case (Cons name names)
  let ?comma = "if names = [] then [] else '',''"
  let ?ms = "obj_set name (memberValue dir fileMap name) ms"
  from Cons.prems(1) have safe: "safe_entry dir fileMap name" by simp
  obtain l where l: "pathLine dir fileMap ?comma name = Inr l"
    and rl: "run (m, FObj ms k0 # st) (l @ [CHR 0x0A])
               = Inr (if ?comma = [] then MAfter else MKey, FObj ?ms name # st)"
  proof -
    have c: "?comma = [] \<or> ?comma = '',''" by simp
    from run_line [OF safe Cons.prems(3) c, of ms k0 st] that show ?thesis by blast
  qed
  show ?case
  proof (cases "names = []")
    case True
    with l rl show ?thesis by (simp add: unlines_def parsedMembers_def)
  next
    case False
    from Cons.prems(1) have "list_all (safe_entry dir fileMap) names" by simp
    from Cons.IH [OF this False, of MKey ?ms name]
    obtain ls where ls: "pathLines dir fileMap names = Inr ls"
      and rls: "run (MKey, FObj ?ms name # st) (unlines ls)
                  = Inr (MAfter, FObj (parsedMembers dir fileMap names ?ms) (last names) # st)"
      by auto
    from rl False have rl': "run (m, FObj ms k0 # st) (l @ [CHR 0x0A]) = Inr (MKey, FObj ?ms name # st)"
      by simp
    have "run (m, FObj ms k0 # st) ((l @ [CHR 0x0A]) @ unlines ls)
            = Inr (MAfter, FObj (parsedMembers dir fileMap names ?ms) (last names) # st)"
      using run_then [OF rl' rls] .
    with l ls False show ?thesis
      by (simp add: unlines_def parsedMembers_def)
  qed
qed

lemma unlines_append: "unlines (a @ b) = unlines a @ unlines b"
  by (simp add: unlines_def)

lemma writeTsConfigPathsJSON_unlines:
  assumes "importNames loc fileMap = Some names"
  shows "writeTsConfigPathsJSON loc dir fileMap =
     (case pathLines dir fileMap names of
        Inl e \<Rightarrow> Inl (Thrown e)
      | Inr paths \<Rightarrow> Inr (unlines fileHeader @ unlines paths @ unlines fileFooter))"
proof (cases "pathLines dir fileMap names")
  case (Inl e)
  then show ?thesis using assms by (simp add: writeTsConfigPathsJSON_def)
next
  case (Inr paths)
  have "join [CHR 0x0A] ((fileHeader @ paths @ fileFooter) @ [[]])
          = unlines fileHeader @ unlines paths @ unlines fileFooter"
    by (simp only: join_unlines unlines_append)
  then show ?thesis
    using Inr assms by (simp add: writeTsConfigPathsJSON_def fileHeader_def fileFooter_def)
qed

lemma run_header:
  "run (MValue, []) (unlines fileHeader) = Inr (MObjStart, FObj [] [] # pathsStack)"
  by (simp add: fileHeader_def unlines_def pathsStack_def step_value_def isWs_def
                step_string_def)

lemma run_footer:
  assumes "m = MObjStart \<or> m = MAfter"
  shows "run (m, FObj ms k # pathsStack) (unlines fileFooter) = Inr (MEnd (parsedFile ms), [])"
  using assms
  by (auto simp: fileFooter_def unlines_def pathsStack_def parsedFile_def step_after_def
                 isWs_def obj_set_def obj_get_def isArrayIndex_def isDigit_def)

lemma parse_written:
  assumes "importNames loc fileMap = Some names"
    and "list_all (safe_entry dir fileMap) names"
  shows "\<exists>contents. writeTsConfigPathsJSON loc dir fileMap = Inr contents \<and>
           JSON_parse contents = Inr (parsedFile (parsedMembers dir fileMap names []))"
proof (cases "names = []")
  case True
  have "run (MValue, []) (unlines fileHeader @ unlines fileFooter)
          = Inr (MEnd (parsedFile []), [])"
    by (rule run_then [OF run_header run_footer]) simp
  then show ?thesis
    using True
    by (simp add: writeTsConfigPathsJSON_unlines [OF assms(1)] JSON_parse_def parsedMembers_def
                  unlines_def)
next
  case False
  from run_lines [OF assms(2) False, of MObjStart "[]" "[]" pathsStack]
  obtain ls where ls: "pathLines dir fileMap names = Inr ls"
    and r: "run (MObjStart, FObj [] [] # pathsStack) (unlines ls)
              = Inr (MAfter, FObj (parsedMembers dir fileMap names []) (last names) # pathsStack)"
    by auto
  have "run (MValue, []) (unlines fileHeader @ unlines ls @ unlines fileFooter)
        = Inr (MEnd (parsedFile (parsedMembers dir fileMap names [])), [])"
    by (rule run_then [OF run_header run_then [OF r run_footer]]) simp
  then show ?thesis
    using ls by (simp add: writeTsConfigPathsJSON_unlines [OF assms(1)] JSON_parse_def)
qed

lemma resolveAll_strings:
  "resolveAll dir (map (\<lambda>v. JString (f v)) vs) = Inr (map (\<lambda>v. path_resolve dir (f v)) vs)"
  by (induction vs) auto

lemma resolvePaths_memberValue:
  "resolvePaths dir (memberValue dir fileMap k) = Inr (resolvedSeq dir fileMap k)"
  by (simp add: resolvePaths_def memberValue_def resolvedSeq_def resolveAll_strings)

lemma set_obj_replace: "set (obj_replace k v ob) \<subseteq> insert (k, v) (set ob)"
  by (induction ob) (auto split: if_splits)

lemma set_obj_insert_index: "set (obj_insert_index k v ob) \<subseteq> insert (k, v) (set ob)"
  by (induction ob) (auto split: if_splits)

lemma set_obj_set: "set (obj_set k v ob) \<subseteq> insert (k, v) (set ob)"
  using set_obj_replace [of k v ob] set_obj_insert_index [of k v ob]
  by (auto simp: obj_set_def)

lemma parsedMembers_values:
  assumes "\<forall>(k, v) \<in> set ms. v = memberValue dir fileMap k"
  shows "\<forall>(k, v) \<in> set (parsedMembers dir fileMap names ms). v = memberValue dir fileMap k"
  using assms
proof (induction names arbitrary: ms)
  case Nil
  then show ?case by (simp add: parsedMembers_def)
next
  case (Cons name names)
  have "\<forall>(k, v) \<in> set (obj_set name (memberValue dir fileMap name) ms).
          v = memberValue dir fileMap k"
    using Cons.prems set_obj_set [of name "memberValue dir fileMap name" ms] by auto
  from Cons.IH [OF this] show ?case by (simp add: parsedMembers_def)
qed

lemma parsedMembers_keys:
  "obj_get (parsedMembers dir fileMap names ms) k \<noteq> None
     \<longleftrightarrow> k \<in> set names \<or> obj_get ms k \<noteq> None"
proof (induction names arbitrary: ms)
  case Nil
  then show ?case by (simp add: parsedMembers_def)
next
  case (Cons name names)
  have "obj_get (parsedMembers dir fileMap (name # names) ms) k
          = obj_get (parsedMembers dir fileMap names
                       (obj_set name (memberValue dir fileMap name) ms)) k"
    by (simp add: parsedMembers_def)
  then show ?case using Cons.IH [of "obj_set name (memberValue dir fileMap name) ms"]
    by (auto simp: obj_get_set)
qed

lemma obj_assign_not_proto: "k \<noteq> ''__proto__'' \<Longrightarrow> obj_assign k v ob = obj_set k v ob"
  by (simp add: obj_assign_def)

lemma reduceEntries_members:
  assumes "\<forall>(k, v) \<in> set es. v = memberValue dir fileMap k \<and> k \<noteq> ''__proto__''"
  shows "\<exists>r. reduceEntries dir acc es = Inr r \<and>
           (\<forall>k. obj_get r k = (if obj_get es k \<noteq> None then Some (resolvedSeq dir fileMap k)
                               else obj_get acc k))"
  using assms
proof (induction es arbitrary: acc)
  case Nil
  then show ?case by (simp add: obj_get_def)
next
  case (Cons e es)
  obtain k0 v0 where e: "e = (k0, v0)" by (cases e)
  with Cons.prems have v0: "v0 = memberValue dir fileMap k0" and k0: "k0 \<noteq> ''__proto__''"
    by simp_all
  from Cons.prems
  have "\<forall>(k, v) \<in> set es. v = memberValue dir fileMap k \<and> k \<noteq> ''__proto__''" by simp
  from Cons.IH [OF this, of "obj_set k0 (resolvedSeq dir fileMap k0) acc"]
  obtain r where r: "reduceEntries dir (obj_set k0 (resolvedSeq dir fileMap k0) acc) es = Inr r"
    and look: "\<forall>k. obj_get r k = (if obj_get es k \<noteq> None then Some (resolvedSeq dir fileMap k)
                               else obj_get (obj_set k0 (resolvedSeq dir fileMap k0) acc) k)"
    by blast
  have "reduceEntries dir acc (e # es) = Inr r"
    using r k0 by (simp add: e v0 resolvePaths_memberValue obj_assign_not_proto)
  moreover have "\<forall>k. obj_get r k = (if obj_get (e # es) k \<noteq> None
                                      then Some (resolvedSeq dir fileMap k) else obj_get acc k)"
    using look by (auto simp: e obj_get_set) (auto simp: obj_get_def)
  ultimately show ?case by blast
qed

text \<open>
  A member named \<^verbatim>\<open>__proto__\<close> is not read back: the reducer assigns it, which replaces
  the prototype of the file map and gives it no key.
\<close>

lemma reduceEntries_proto:
  \<open>tsConfigPathsToFileMap ''/app''
     ''{"compilerOptions": {"paths": {"__proto__": ["./src/a.ts"], "b": ["./src/b.ts"]}}}''
   = Inr [(''b'', [''/app/src/b.ts''])]\<close>
  by code_simp

lemma read_parsedFile:
  assumes "JSON_parse contents = Inr (parsedFile ms)"
  shows "tsConfigPathsToFileMap dir contents = reduceEntries dir [] ms"
  using assms
  by (simp add: tsConfigPathsToFileMap_def parsedFile_def get_prop_def entries_def obj_get_def)

lemma round_trip_stored:
  assumes "list_all (safe_entry dir fileMap) (map fst fileMap)"
    and "same_lower loc (map fst fileMap)"
    and "''__proto__'' \<notin> fst ` set fileMap"
  shows "\<exists>contents fileMap'.
           writeTsConfigPathsJSON loc dir fileMap = Inr contents
           \<and> tsConfigPathsToFileMap dir contents = Inr fileMap'
           \<and> (\<forall>k. obj_get fileMap' k
                    = map_option (map (\<lambda>v. path_resolve dir (stored dir v))) (obj_get fileMap k))"
proof -
  let ?names = "sort_key lower_units (map fst fileMap)"
  let ?ms = "parsedMembers dir fileMap ?names []"
  have names: "importNames loc fileMap = Some ?names"
    using assms(2) by (rule importNames_same)
  have "set ?names = set (map fst fileMap)" by simp
  with assms(1) have safe: "list_all (safe_entry dir fileMap) ?names"
    by (simp add: list_all_iff)
  from parse_written [OF names safe] obtain contents
    where w: "writeTsConfigPathsJSON loc dir fileMap = Inr contents"
      and p: "JSON_parse contents = Inr (parsedFile ?ms)"
    by blast
  have keys: "obj_get ?ms k \<noteq> None \<longleftrightarrow> obj_get fileMap k \<noteq> None" for k
    using parsedMembers_keys [of dir fileMap ?names "[]" k]
    by (simp add: obj_get_def map_of_eq_None_iff)
  have vals: "\<forall>(k, v) \<in> set ?ms. v = memberValue dir fileMap k"
    by (rule parsedMembers_values) simp
  have "\<forall>(k, v) \<in> set ?ms. v = memberValue dir fileMap k \<and> k \<noteq> ''__proto__''"
  proof (clarify, rule conjI)
    fix k v assume in_ms: "(k, v) \<in> set ?ms"
    with vals show "v = memberValue dir fileMap k" by auto
    from in_ms have "obj_get ?ms k \<noteq> None"
      by (metis obj_get_def map_of_eq_None_iff fst_conv image_eqI)
    with keys [of k] have "obj_get fileMap k \<noteq> None" by blast
    then have "k \<in> fst ` set fileMap" by (simp add: obj_get_def map_of_eq_None_iff)
    with assms(3) show "k \<noteq> ''__proto__''" by blast
  qed
  from reduceEntries_members [OF this, of "[]"] obtain r
    where r: "reduceEntries dir [] ?ms = Inr r"
      and look: "\<forall>k. obj_get r k = (if obj_get ?ms k \<noteq> None
                                      then Some (resolvedSeq dir fileMap k) else obj_get [] k)"
    by blast
  have "obj_get r k = map_option (map (\<lambda>v. path_resolve dir (stored dir v))) (obj_get fileMap k)"
    for k
    using look keys [of k]
    by (cases "obj_get fileMap k") (auto simp: resolvedSeq_def obj_get_def)
  with w r read_parsedFile [OF p, of dir] show ?thesis by auto
qed

lemma normalizeSegments_foldl: "normalizeSegments segs = rev (foldl normStep [] segs)"
  by (simp add: normalizeSegments_def normStep_def [abs_def])

lemma split_sep_nonempty: "split_sep s \<noteq> []"
  by (induction s) (auto simp: split_sep_simps)

lemma split_sep_no_slash: "x \<in> set (split_sep s) \<Longrightarrow> CHR ''/'' \<notin> set x"
proof (induction s arbitrary: x)
  case Nil
  then show ?case by (simp add: split_sep_simps)
next
  case (Cons c cs)
  obtain y ys where y: "split_sep cs = y # ys"
    using split_sep_nonempty [of cs] by (cases "split_sep cs") auto
  then have "CHR ''/'' \<notin> set y" and "\<And>z. z \<in> set ys \<Longrightarrow> CHR ''/'' \<notin> set z"
    using Cons.IH by auto
  with Cons.prems y show ?case
    by (auto simp: split_sep_simps split: if_splits)
qed

lemma split_sep_append_slash:
  "CHR ''/'' \<notin> set a \<Longrightarrow> split_sep (a @ CHR ''/'' # r) = a # split_sep r"
  by (induction a) (auto simp: split_sep_simps)

lemma split_sep_single: "CHR ''/'' \<notin> set a \<Longrightarrow> split_sep a = [a]"
  by (induction a) (auto simp: split_sep_simps)

lemma split_sep_join:
  "segs \<noteq> [] \<Longrightarrow> \<forall>s \<in> set segs. CHR ''/'' \<notin> set s \<Longrightarrow> split_sep (join ''/'' segs) = segs"
proof (induction segs rule: induct_list012)
  case 1
  then show ?case by simp
next
  case (2 x)
  then show ?case by (simp add: split_sep_single)
next
  case (3 x y zs)
  then show ?case using split_sep_append_slash [of x "join ''/'' (y # zs)"] by simp
qed

lemma foldl_normStep_ups: "foldl normStep st (replicate n ''..'') = drop n st"
proof (induction n arbitrary: st)
  case 0
  then show ?case by simp
next
  case (Suc n)
  then show ?case by (simp add: normStep_def drop_Suc)
qed

lemma foldl_normStep_normal:
  "\<forall>s \<in> set t. normal_seg s \<Longrightarrow> foldl normStep st t = rev t @ st"
  by (induction t arbitrary: st) (auto simp: normStep_def normal_seg_def)

lemma foldl_normStep_result:
  "\<forall>s \<in> set st. P s \<Longrightarrow> \<forall>s \<in> set xs. s \<noteq> [] \<and> s \<noteq> ''.'' \<and> s \<noteq> ''..'' \<longrightarrow> P s \<Longrightarrow>
     \<forall>s \<in> set (foldl normStep st xs). P s"
proof (induction xs arbitrary: st)
  case Nil
  then show ?case by simp
next
  case (Cons x xs)
  have "\<forall>s \<in> set (normStep st x). P s"
  proof -
    have "set (tl st) \<subseteq> set st" by (cases st) auto
    with Cons.prems show ?thesis by (auto simp: normStep_def)
  qed
  then show ?case using Cons.IH [of "normStep st x"] Cons.prems(2) by simp
qed

lemma normalized_normal:
  "s \<in> set (normalizeSegments (split_sep p @ split_sep q)) \<Longrightarrow> normal_seg s"
  "s \<in> set (normalizeSegments (split_sep p)) \<Longrightarrow> normal_seg s"
proof -
  have *: "\<forall>s \<in> set (foldl normStep [] xs). normal_seg s"
    if "\<forall>x \<in> set xs. CHR ''/'' \<notin> set x" for xs
    using that by (intro foldl_normStep_result) (auto simp: normal_seg_def)
  show "s \<in> set (normalizeSegments (split_sep p @ split_sep q)) \<Longrightarrow> normal_seg s"
    using * [of "split_sep p @ split_sep q"] split_sep_no_slash
    by (auto simp: normalizeSegments_foldl)
  show "s \<in> set (normalizeSegments (split_sep p)) \<Longrightarrow> normal_seg s"
    using * [of "split_sep p"] split_sep_no_slash
    by (auto simp: normalizeSegments_foldl)
qed

lemma dropCommon_split:
  "dropCommon xs ys = (f, t) \<Longrightarrow> \<exists>c. xs = c @ f \<and> ys = c @ t"
proof (induction xs ys arbitrary: f t rule: dropCommon.induct)
  case (1 x xs y ys)
  show ?case
  proof (cases "x = y")
    case True
    with 1 obtain c where "xs = c @ f \<and> ys = c @ t" by auto
    with True have "x # xs = (x # c) @ f \<and> y # ys = (x # c) @ t" by simp
    then show ?thesis by blast
  next
    case False
    with 1 show ?thesis by auto
  qed
qed auto

lemma normalize_relative:
  assumes "\<forall>s \<in> set t. normal_seg s"
  shows "foldl normStep (rev (c @ f)) (split_sep (join ''/'' (replicate (length f) ''..'' @ t)))
           = rev (c @ t)"
proof (cases "replicate (length f) ''..'' @ t = []")
  case True
  then have "f = []" "t = []" by auto
  then show ?thesis by (simp add: split_sep_simps normStep_def)
next
  case False
  have noslash: "\<forall>s \<in> set (replicate (length f) ''..'' @ t). CHR ''/'' \<notin> set s"
  proof
    fix s assume "s \<in> set (replicate (length f) ''..'' @ t)"
    then consider "s = ''..''" | "s \<in> set t" by auto
    then show "CHR ''/'' \<notin> set s"
      using assms by cases (simp_all add: normal_seg_def)
  qed
  have "foldl normStep (rev (c @ f)) (replicate (length f) ''..'' @ t)
          = rev t @ drop (length f) (rev (c @ f))"
    using assms by (simp add: foldl_normStep_ups foldl_normStep_normal)
  also have "\<dots> = rev (c @ t)" by simp
  finally show ?thesis using split_sep_join [OF False noslash] by simp
qed

lemma resolvedSegments_normal: "s \<in> set (resolvedSegments dir p) \<Longrightarrow> normal_seg s"
  using normalized_normal(1) [of s dir p] normalized_normal(2) [of s p]
  by (cases "isAbsolute p") (simp_all add: resolvedSegments_def)

lemma resolvedSegments_stored:
  "resolvedSegments dir (stored dir p) = resolvedSegments dir p"
proof -
  define F where "F = normalizeSegments (split_sep dir)"
  define T where "T = resolvedSegments dir p"
  obtain f t where d: "dropCommon F T = (f, t)" by (cases "dropCommon F T")
  then obtain c where F: "F = c @ f" and T: "T = c @ t"
    using dropCommon_split by blast
  define rel where "rel = join ''/'' (replicate (length f) ''..'' @ t)"
  have tn: "\<forall>s \<in> set t. normal_seg s"
    using resolvedSegments_normal [of _ dir p] by (simp add: T_def [symmetric] T)
  have st: "stored dir p = CHR ''.'' # CHR ''/'' # rel"
    using d by (simp add: stored_def path_relative_def F_def T_def rel_def)
  have sp: "split_sep (stored dir p) = ''.'' # split_sep rel"
    using split_sep_append_slash [of "''.''" rel] by (simp add: st)
  have na: "\<not> isAbsolute (stored dir p)" by (simp add: st isAbsolute_def)
  have dirF: "foldl normStep [] (split_sep dir) = rev (c @ f)"
    using F unfolding F_def normalizeSegments_foldl by (metis rev_rev_ident)
  have "foldl normStep [] (split_sep dir @ split_sep (stored dir p))
          = foldl normStep (rev (c @ f)) (''.'' # split_sep rel)"
    by (simp only: foldl_append dirF sp)
  also have "\<dots> = foldl normStep (rev (c @ f)) (split_sep rel)"
    by (simp add: normStep_def)
  also have "\<dots> = rev (c @ t)"
    unfolding rel_def using tn by (rule normalize_relative)
  finally have nz: "normalizeSegments (split_sep dir @ split_sep (stored dir p)) = c @ t"
    by (simp only: normalizeSegments_foldl rev_rev_ident)
  have "resolvedSegments dir (stored dir p)
          = normalizeSegments (split_sep dir @ split_sep (stored dir p))"
    unfolding resolvedSegments_def using na by (simp only: if_False)
  also have "\<dots> = c @ t" by (rule nz)
  also have "\<dots> = resolvedSegments dir p" using T by (simp only: T_def)
  finally show ?thesis .
qed

lemma resolve_stored: "path_resolve dir (stored dir p) = path_resolve dir p"
  by (simp add: path_resolve_def resolvedSegments_stored)

text \<open>A normalised absolute path is its own resolution.\<close>

lemma resolve_normalised:
  assumes "\<forall>s \<in> set segs. normal_seg s"
  shows "path_resolve dir (CHR ''/'' # join ''/'' segs) = CHR ''/'' # join ''/'' segs"
proof -
  define rest where "rest = join ''/'' segs"
  have first: "split_sep (CHR ''/'' # rest) = [] # split_sep rest"
    using split_sep_append_slash [of "[]" rest] by simp
  have "foldl normStep [] (split_sep rest) = rev segs"
  proof (cases "segs = []")
    case True
    then show ?thesis by (simp add: rest_def split_sep_simps(1) normStep_def)
  next
    case False
    then have "split_sep rest = segs"
      unfolding rest_def using assms by (intro split_sep_join) (auto simp: normal_seg_def)
    then show ?thesis
      using assms by (simp add: foldl_normStep_normal)
  qed
  then have "foldl normStep [] (split_sep (CHR ''/'' # rest)) = rev segs"
    by (simp add: first normStep_def)
  then have "normalizeSegments (split_sep (CHR ''/'' # rest)) = segs"
    by (simp only: normalizeSegments_foldl rev_rev_ident)
  moreover have "isAbsolute (CHR ''/'' # rest)" by (simp add: isAbsolute_def)
  ultimately have "resolvedSegments dir (CHR ''/'' # rest) = segs"
    by (simp only: resolvedSegments_def if_True)
  then show ?thesis
    unfolding rest_def [symmetric] by (simp only: path_resolve_def rest_def)
qed

lemma round_trip_path:
  assumes "\<forall>s \<in> set segs. normal_seg s"
  shows "path_resolve dir (stored dir (CHR ''/'' # join ''/'' segs)) = CHR ''/'' # join ''/'' segs"
  using resolve_normalised [OF assms, of dir] by (simp add: resolve_stored)

text \<open>
  No event gives the file map a key that it inherits: a file map that the watcher has
  built from \<^verbatim>\<open>{}\<close> owns none of the names of \<^verbatim>\<open>Object.prototype\<close>.
\<close>

lemma inherited_names_never_owned:
  assumes "\<forall>k \<in> set prototype_names. obj_get fileMap k = None"
  shows "\<forall>k \<in> set prototype_names.
           obj_get (fst (processWatcherEvent loc dir ev p fileMap arr)) k = None"
proof
  fix k assume k: "k \<in> set prototype_names"
  with assms have none: "obj_get fileMap k = None" by simp
  show "obj_get (fst (processWatcherEvent loc dir ev p fileMap arr)) k = None"
  proof (cases "k = mapKey p arr")
    case True
    with k none have "obj_read fileMap (mapKey p arr) = Inherited"
      by (simp add: obj_read_Inherited)
    with True none show ?thesis
      by (cases ev) (simp_all add: fst_add fst_unlink)
  next
    case False
    with none show ?thesis
      by (cases ev)
         (auto simp: fst_add fst_unlink obj_get_set obj_get_delete obj_get_replace
               split: option.splits)
  qed
qed

text \<open>
  For a registry whose keys and stored paths need no escaping, whose paths are absolute
  and normalised (each is its own resolution), whose keys are lower-cased alike by
  \<^verbatim>\<open>toLowerCase\<close> and \<^verbatim>\<open>toLocaleLowerCase\<close>, and which has no key \<^verbatim>\<open>__proto__\<close>, the
  file is written, it is read back, and every key has the sequence it had.
\<close>

lemma round_trip_json_safe:
  assumes "list_all (safe_entry dir fileMap) (map fst fileMap)"
    and "list_all (\<lambda>e. list_all (\<lambda>p. path_resolve dir p = p) (snd e)) fileMap"
    and "same_lower loc (map fst fileMap)"
    and "''__proto__'' \<notin> fst ` set fileMap"
  shows "\<exists>contents fileMap'.
           writeTsConfigPathsJSON loc dir fileMap = Inr contents
           \<and> tsConfigPathsToFileMap dir contents = Inr fileMap'
           \<and> (\<forall>k. obj_get fileMap' k = obj_get fileMap k)"
proof -
  from round_trip_stored [OF assms(1,3,4)] obtain contents fileMap'
    where w: "writeTsConfigPathsJSON loc dir fileMap = Inr contents"
      and r: "tsConfigPathsToFileMap dir contents = Inr fileMap'"
      and look: "\<forall>k. obj_get fileMap' k
                   = map_option (map (\<lambda>v. path_resolve dir (stored dir v))) (obj_get fileMap k)"
    by blast
  have "obj_get fileMap' k = obj_get fileMap k" for k
  proof (cases "obj_get fileMap k")
    case None
    with look show ?thesis by simp
  next
    case (Some vs)
    then have "(k, vs) \<in> set fileMap"
      by (simp add: obj_get_def map_of_SomeD)
    with assms(2) have "\<forall>p \<in> set vs. path_resolve dir p = p"
      by (auto simp: list_all_iff)
    then have "map (\<lambda>v. path_resolve dir (stored dir v)) vs = vs"
      by (simp add: resolve_stored map_idI)
    with look Some show ?thesis by simp
  qed
  with w r show ?thesis by blast
qed

text \<open>The registry of \<^verbatim>\<open>Zeta\<close>, \<^verbatim>\<open>alpha\<close> and \<^verbatim>\<open>Beta\<close> is such a registry.\<close>

lemma round_trip_json_safe_example:
  "list_all (safe_entry ''/app'' zeta_alpha_beta) (map fst zeta_alpha_beta)
   \<and> list_all (\<lambda>e. list_all (\<lambda>p. path_resolve ''/app'' p = p) (snd e)) zeta_alpha_beta
   \<and> (\<exists>contents fileMap'.
          writeTsConfigPathsJSON loc ''/app'' zeta_alpha_beta = Inr contents
          \<and> tsConfigPathsToFileMap ''/app'' contents = Inr fileMap'
          \<and> (\<forall>k. obj_get fileMap' k = obj_get zeta_alpha_beta k))"
proof -
  have s: "list_all (safe_entry ''/app'' zeta_alpha_beta) (map fst zeta_alpha_beta)"
    unfolding zeta_alpha_beta_eq by code_simp
  have n: "list_all (\<lambda>e. list_all (\<lambda>p. path_resolve ''/app'' p = p) (snd e)) zeta_alpha_beta"
    unfolding zeta_alpha_beta_eq by code_simp
  have p: "''__proto__'' \<notin> fst ` set zeta_alpha_beta"
    by (simp add: zeta_alpha_beta_eq)
  from s n round_trip_json_safe [OF s n same_lower_zeta_alpha_beta p] show ?thesis by blast
qed

subsection \<open>The warm start\<close>

text \<open>
  C6, as amended. When the flag is set and reading the persisted file back throws, no alias
  list is delivered and no watcher is started: the exception is thrown inside the callback
  of \<^verbatim>\<open>readFile\<close>, no handler catches it, and the promise of the bootstrap stays
  pending.
\<close>

theorem warm_start_malformed_file:
  "tsConfigPathsToFileMap dir contents = Inl (Thrown e) \<Longrightarrow>
     result (createAliasMap loc dir True (Inr contents) events arr) = Pending
     \<and> uncaught (createAliasMap loc dir True (Inr contents) events arr) = [Thrown e]
     \<and> \<not> watching (createAliasMap loc dir True (Inr contents) events arr)
     \<and> \<not> flagSet (createAliasMap loc dir True (Inr contents) events arr)"
  by (simp add: createAliasMap_def Let_def)

theorem warm_start_malformed_file_witness:
  \<open>tsConfigPathsToFileMap ''/app'' ''{"compilerOptions": {}}'' = Inl (Thrown TypeError)
   \<and> result (createAliasMap OtherLocale ''/app'' True (Inr ''{"compilerOptions": {}}'')
               [(Add, ''/app/src/App.tsx'')] example_specs) = Pending
   \<and> \<not> watching (createAliasMap OtherLocale ''/app'' True (Inr ''{"compilerOptions": {}}'')
               [(Add, ''/app/src/App.tsx'')] example_specs)\<close>
proof -
  have f: \<open>tsConfigPathsToFileMap ''/app'' ''{"compilerOptions": {}}'' = Inl (Thrown TypeError)\<close>
    by (simp add: json_eval read_eval)
  from warm_start_malformed_file [OF f, of OtherLocale "[(Add, ''/app/src/App.tsx'')]" example_specs] f
  show ?thesis by blast
qed

text \<open>
  C6, as stated, fails: for the file that \<^verbatim>\<open>ensureTsConfigPaths.js\<close> writes, which has
  no \<^verbatim>\<open>compilerOptions\<close>, the promise of the bootstrap is not rejected.
\<close>

theorem warm_start_not_rejected_counterexample:
  \<open>tsConfigPathsToFileMap ''/app'' [CHR ''{'', CHR ''}'', CHR 0x0A] = Inl (Thrown TypeError)
   \<and> result (createAliasMap OtherLocale ''/app'' True (Inr [CHR ''{'', CHR ''}'', CHR 0x0A]) [] example_specs)
       = Pending
   \<and> result (createAliasMap OtherLocale ''/app'' True (Inr [CHR ''{'', CHR ''}'', CHR 0x0A]) [] example_specs)
       \<noteq> Rejected TypeError\<close>
  by (simp add: createAliasMap_def json_eval read_eval)

lemma warm_never_watches:
  "\<not> watching (createAliasMap loc dir True file events arr)"
  by (simp add: createAliasMap_def Let_def split: sum.splits prod.splits failure.splits)

lemma never_rejected:
  "result (createAliasMap loc dir isInitialized file events arr) \<noteq> Rejected e"
  by (simp add: createAliasMap_def Let_def split: sum.splits prod.splits failure.splits)

end
